theory Spec2Isabelle
  imports Complex_Main "HOL-Library.Char_ord" "HOL-Library.List_Lexorder" "HOL-Library.Log_Nat"
begin

section \<open>Python values and strings\<close>

text \<open>
  The functions of \<^verbatim>\<open>attendance_analyzer.py\<close> that hold the logic are
  \<^verbatim>\<open>clean_row\<close>, \<^verbatim>\<open>deduplicate_records\<close> and \<^verbatim>\<open>analyze\<close>. A raw row is a
  dictionary from column names to values. The values a row holds are strings, or
  \<^verbatim>\<open>None\<close>, which \<^verbatim>\<open>csv.DictReader\<close> stores for the columns a short line does not
  reach. A Python string is modelled as a \<^typ>\<open>string\<close>, a character as the code point
  \<open>of_char c\<close>: the strings of the model are those of code points below 256. On these
  the string functions below are Python's, but for the upper case of the two characters
  that \<open>upper_ok\<close> excludes.
\<close>

datatype pyval = PNone | PStr string

datatype error = AttributeError | ValueError string

type_synonym row = "string \<rightharpoonup> pyval"

text \<open>\<^verbatim>\<open>row.get(k, '')\<close>: the default only stands in for a missing key.\<close>

definition row_get :: "row \<Rightarrow> string \<Rightarrow> pyval" where
  "row_get r k = (case r k of None \<Rightarrow> PStr [] | Some v \<Rightarrow> v)"

text \<open>\<^verbatim>\<open>str(v)\<close>\<close>

fun py_str :: "pyval \<Rightarrow> string" where
  "py_str PNone = ''None''"
| "py_str (PStr s) = s"

text \<open>
  \<^verbatim>\<open>str.isspace\<close> on one character: tab to carriage return, the four separators
  U+001C to U+001F, the space, the next-line control U+0085 and the no-break space
  U+00A0.
\<close>

definition is_space :: "char \<Rightarrow> bool" where
  "is_space c =
     (let n = (of_char c :: nat)
      in (9 \<le> n \<and> n \<le> 13) \<or> (28 \<le> n \<and> n \<le> 32) \<or> n = 133 \<or> n = 160)"

text \<open>\<^verbatim>\<open>s.strip()\<close>\<close>

definition strip :: "string \<Rightarrow> string" where
  "strip s = rev (dropWhile is_space (rev (dropWhile is_space s)))"

text \<open>\<^verbatim>\<open>v.strip()\<close> on a value: \<^verbatim>\<open>None\<close> has no such method.\<close>

fun val_strip :: "pyval \<Rightarrow> error + string" where
  "val_strip PNone = Inl AttributeError"
| "val_strip (PStr s) = Inr (strip s)"

text \<open>
  The upper case of one character, which is a string: the letters \<^verbatim>\<open>a\<close> to \<^verbatim>\<open>z\<close> and
  the letters U+00E0 to U+00FE (the division sign U+00F7 is not one) go 32 code points
  down, the sharp s U+00DF becomes \<^verbatim>\<open>SS\<close>, and every other character stays. The upper
  case of the micro sign U+00B5 is U+039C and that of U+00FF is U+0178, which no
  \<^typ>\<open>char\<close> holds: \<open>upper_ok\<close> says that a string has neither of the two, and what is
  proved of \<open>upper\<close> is proved of such strings.
\<close>

definition upper_char :: "char \<Rightarrow> string" where
  "upper_char c =
     (let n = (of_char c :: nat)
      in if n = 223 then ''SS''
         else if (97 \<le> n \<and> n \<le> 122) \<or> (224 \<le> n \<and> n \<le> 254 \<and> n \<noteq> 247)
           then [char_of (n - 32)]
           else [c])"

definition upper_ok :: "string \<Rightarrow> bool" where
  "upper_ok s = (list_all (\<lambda>c. (of_char c :: nat) \<noteq> 181 \<and> (of_char c :: nat) \<noteq> 255) s)"

text \<open>\<^verbatim>\<open>s.upper()\<close>\<close>

definition upper :: "string \<Rightarrow> string" where
  "upper s = concat (map upper_char s)"

section \<open>Parsing and printing a date\<close>

text \<open>
  \<^verbatim>\<open>datetime.strptime(s, '%Y-%m-%d')\<close> compiles the format into the regular expression
  \<^verbatim>\<open>(?P<Y>\d\d\d\d)-(?P<m>1[0-2]|0[1-9]|[1-9])-(?P<d>3[0-1]|[1-2]\d|0[1-9]|[1-9]| [1-9])\<close>,
  matches it at the start of the string, and refuses a match that does not reach the end
  of the string. The matcher below returns every way a pattern matches a prefix, in the
  order in which a backtracking engine tries them: the head of the list is the match the
  engine reports.
\<close>

datatype regex = Rng char char | Cat regex regex | Alt regex regex

fun rmatch :: "regex \<Rightarrow> string \<Rightarrow> (string \<times> string) list" where
  "rmatch (Rng a b) s =
     (case s of [] \<Rightarrow> [] | c # r \<Rightarrow> if a \<le> c \<and> c \<le> b then [([c], r)] else [])"
| "rmatch (Cat p q) s =
     concat (map (\<lambda>(u, r). map (\<lambda>(v, r'). (u @ v, r')) (rmatch q r)) (rmatch p s))"
| "rmatch (Alt p q) s = rmatch p s @ rmatch q s"

definition re_digit :: regex where
  "re_digit = Rng CHR ''0'' CHR ''9''"

definition re_lit :: "char \<Rightarrow> regex" where
  "re_lit c = Rng c c"

definition re_Y :: regex where
  "re_Y = Cat re_digit (Cat re_digit (Cat re_digit re_digit))"

definition re_m :: regex where
  "re_m = Alt (Cat (re_lit CHR ''1'') (Rng CHR ''0'' CHR ''2''))
         (Alt (Cat (re_lit CHR ''0'') (Rng CHR ''1'' CHR ''9''))
              (Rng CHR ''1'' CHR ''9''))"

definition re_d :: regex where
  "re_d = Alt (Cat (re_lit CHR ''3'') (Rng CHR ''0'' CHR ''1''))
         (Alt (Cat (Rng CHR ''1'' CHR ''2'') re_digit)
         (Alt (Cat (re_lit CHR ''0'') (Rng CHR ''1'' CHR ''9''))
         (Alt (Rng CHR ''1'' CHR ''9'')
              (Cat (re_lit CHR '' '') (Rng CHR ''1'' CHR ''9'')))))"

text \<open>
  The groups of the first match of the whole pattern, and what is left of the string
  after it.
\<close>

definition match_format :: "string \<Rightarrow> (string \<times> string \<times> string \<times> string) option" where
  "match_format s =
     (case concat (map (\<lambda>(y, r1).
             concat (map (\<lambda>(h1, r2).
               concat (map (\<lambda>(m, r3).
                 concat (map (\<lambda>(h2, r4).
                   map (\<lambda>(d, r5). (y, m, d, r5)) (rmatch re_d r4))
                   (rmatch (re_lit CHR ''-'') r3)))
                 (rmatch re_m r2)))
               (rmatch (re_lit CHR ''-'') r1)))
             (rmatch re_Y s)) of
        [] \<Rightarrow> None
      | x # _ \<Rightarrow> Some x)"

text \<open>\<^verbatim>\<open>int(s)\<close> on a group of the match: decimal digits, after a space at most.\<close>

definition digit_val :: "char \<Rightarrow> nat" where
  "digit_val c = of_char c - 48"

definition py_int :: "string \<Rightarrow> nat" where
  "py_int s = foldl (\<lambda>n c. 10 * n + digit_val c) 0 (strip s)"

record pydate =
  year :: nat
  month :: nat
  day :: nat

definition is_leap :: "nat \<Rightarrow> bool" where
  "is_leap y = (y mod 4 = 0 \<and> (y mod 100 \<noteq> 0 \<or> y mod 400 = 0))"

definition days_in_month :: "nat \<Rightarrow> nat \<Rightarrow> nat" where
  "days_in_month y m =
     (if m = 2 then (if is_leap y then 29 else 28)
      else if m = 4 \<or> m = 6 \<or> m = 9 \<or> m = 11 then 30 else 31)"

text \<open>The check of the \<^verbatim>\<open>date\<close> constructor: years 1 to 9999, a day the month has.\<close>

definition date_ok :: "pydate \<Rightarrow> bool" where
  "date_ok d = (1 \<le> year d \<and> year d \<le> 9999 \<and> 1 \<le> month d \<and> month d \<le> 12 \<and>
                1 \<le> day d \<and> day d \<le> days_in_month (year d) (month d))"

text \<open>\<^verbatim>\<open>datetime.strptime(s, DATE_FORMAT).date()\<close>; \<open>None\<close> is its \<^verbatim>\<open>ValueError\<close>.\<close>

definition strptime :: "string \<Rightarrow> pydate option" where
  "strptime s =
     (case match_format s of
        None \<Rightarrow> None
      | Some (y, m, d, rest) \<Rightarrow>
          if rest \<noteq> [] then None
          else let dt = \<lparr>year = py_int y, month = py_int m, day = py_int d\<rparr>
               in if date_ok dt then Some dt else None)"

definition digit_char :: "nat \<Rightarrow> char" where
  "digit_char n = ''0123456789'' ! n"

fun dec :: "nat \<Rightarrow> string" where
  "dec n = (if n < 10 then [digit_char n] else dec (n div 10) @ [digit_char (n mod 10)])"

declare dec.simps [simp del]

text \<open>The conversion \<^verbatim>\<open>%0wd\<close>: decimal digits, zeros in front up to the width.\<close>

definition zfill :: "nat \<Rightarrow> nat \<Rightarrow> string" where
  "zfill w n = replicate (w - length (dec n)) CHR ''0'' @ dec n"

text \<open>\<^verbatim>\<open>d.isoformat()\<close>, which is \<^verbatim>\<open>"%04d-%02d-%02d" % (year, month, day)\<close>.\<close>

definition isoformat :: "pydate \<Rightarrow> string" where
  "isoformat d = zfill 4 (year d) @ ''-'' @ zfill 2 (month d) @ ''-'' @ zfill 2 (day d)"

section \<open>Normalising a row\<close>

record attendance =
  student_id :: string
  student_name :: string
  date :: string
  status :: string

definition known_codes :: "string list" where
  "known_codes = [''P'', ''A'', ''L'', ''H'']"

text \<open>
  \<^verbatim>\<open>clean_row\<close>. The two \<^verbatim>\<open>.strip()\<close> calls on the name and the date are made on the
  value itself and stand outside the \<^verbatim>\<open>try\<close>; the identifier and the status go through
  \<^verbatim>\<open>str\<close> first.
\<close>

definition clean_row :: "row \<Rightarrow> error + attendance" where
  "clean_row r =
     (let sid = strip (py_str (row_get r ''student_id'')) in
      case val_strip (row_get r ''student_name'') of
        Inl e \<Rightarrow> Inl e
      | Inr name \<Rightarrow>
     (case val_strip (row_get r ''date'') of
        Inl e \<Rightarrow> Inl e
      | Inr date_s \<Rightarrow>
     (let st = upper (strip (py_str (row_get r ''status'')));
          st = (if st \<noteq> [] \<and> st \<notin> set known_codes
                then (if st \<noteq> [] then [hd st] else [])
                else st)
      in case strptime date_s of
           None \<Rightarrow> Inl (ValueError (''Invalid date: '' @ date_s))
         | Some d \<Rightarrow>
             Inr \<lparr>student_id = sid, student_name = name, date = isoformat d, status = st\<rparr>)))"

section \<open>Deduplication\<close>

text \<open>
  \<^verbatim>\<open>deduplicate_records\<close>: the loop carries the set \<^verbatim>\<open>seen\<close> of keys and the list
  \<^verbatim>\<open>out\<close>, to which a record is appended at the end.
\<close>

fun dedup_loop ::
  "(string \<times> string) set \<Rightarrow> attendance list \<Rightarrow> attendance list \<Rightarrow> attendance list" where
  "dedup_loop seen out [] = out"
| "dedup_loop seen out (r # rs) =
     (let key = (student_id r, date r)
      in if key \<in> seen then dedup_loop seen out rs
         else dedup_loop (insert key seen) (out @ [r]) rs)"

definition deduplicate_records :: "attendance list \<Rightarrow> attendance list" where
  "deduplicate_records records = dedup_loop {} [] records"

text \<open>The key of a record, as a name for the pair the loop builds.\<close>

definition dedup_key :: "attendance \<Rightarrow> string \<times> string" where
  "dedup_key r = (student_id r, date r)"

section \<open>Floating-point arithmetic\<close>

text \<open>
  A Python \<^verbatim>\<open>float\<close> is a binary64 number. It is modelled by the rational number it
  stands for; every operation computes the exact result and rounds it to the nearest
  number with a 53-bit significand, ties to the even significand. Exponents go down to
  the subnormal step \<open>2 powi -1074\<close>; no value computed here exceeds 100, so the upper
  end of the range plays no part.
\<close>

definition round_half_even :: "rat \<Rightarrow> int" where
  "round_half_even x =
     (let f = \<lfloor>x\<rfloor>; d = x - of_int f
      in if d < 1 / 2 then f else if 1 / 2 < d then f + 1 else if even f then f else f + 1)"

text \<open>The integer part of the binary logarithm of a positive rational.\<close>

definition ilog2 :: "rat \<Rightarrow> int" where
  "ilog2 q =
     (if 1 \<le> q then bitlen \<lfloor>q\<rfloor> - 1 else - bitlen (\<lceil>1 / q\<rceil> - 1))"

definition fl :: "rat \<Rightarrow> rat" where
  "fl q =
     (if q = 0 then 0
      else let e = max (ilog2 \<bar>q\<bar> - 52) (- 1074)
           in of_int (round_half_even (q / 2 powi e)) * 2 powi e)"

text \<open>\<^verbatim>\<open>a / b\<close> on two integers, \<^verbatim>\<open>x * y\<close> on two floats.\<close>

definition fdiv :: "int \<Rightarrow> int \<Rightarrow> rat" where
  "fdiv a b = fl (of_int a / of_int b)"

definition fmul :: "rat \<Rightarrow> rat \<Rightarrow> rat" where
  "fmul x y = fl (x * y)"

text \<open>
  \<^verbatim>\<open>round(x, 2)\<close>: the decimal number with two places nearest to the exact value of
  \<open>x\<close>, ties to the even last digit, and then the float nearest to that decimal.
\<close>

definition py_round2 :: "rat \<Rightarrow> rat" where
  "py_round2 x = fl (of_int (round_half_even (x * 100)) / 100)"

section \<open>The analysis\<close>

record student_acc =
  s_name :: string
  s_present :: int
  s_total :: int

record day_acc =
  d_present :: int
  d_total :: int

record student_summary =
  sum_student_id :: string
  sum_name :: string
  sum_present :: int
  sum_total :: int
  percentage :: rat

record day_rate =
  rate_date :: string
  rate_present :: int
  rate_total :: int
  rate :: rat

record analysis =
  students :: "student_summary list"
  defaulters :: "student_summary list"
  daily_rates :: "day_rate list"

text \<open>
  A \<^verbatim>\<open>defaultdict\<close> is a list of pairs in the order in which the keys were inserted,
  which is the order in which Python iterates over it. Reading a key that is not there
  gives the value of the factory; the store that follows puts the key at the end.
\<close>

definition dd_get :: "'v \<Rightarrow> ('k \<times> 'v) list \<Rightarrow> 'k \<Rightarrow> 'v" where
  "dd_get dflt d k = (case map_of d k of None \<Rightarrow> dflt | Some v \<Rightarrow> v)"

fun dd_set :: "'k \<Rightarrow> 'v \<Rightarrow> ('k \<times> 'v) list \<Rightarrow> ('k \<times> 'v) list" where
  "dd_set k v [] = [(k, v)]"
| "dd_set k v (p # ps) = (if fst p = k then (k, v) # ps else p # dd_set k v ps)"

definition new_student :: student_acc where
  "new_student = \<lparr>s_name = [], s_present = 0, s_total = 0\<rparr>"

definition new_day :: day_acc where
  "new_day = \<lparr>d_present = 0, d_total = 0\<rparr>"

type_synonym tallies = "(string \<times> student_acc) list \<times> (string \<times> day_acc) list"

text \<open>The body of the loop over the records.\<close>

definition tally :: "attendance \<Rightarrow> tallies \<Rightarrow> tallies" where
  "tally r st =
     (let sid = student_id r;
          s = dd_get new_student (fst st) sid;
          s = s\<lparr>s_name := (if s_name s \<noteq> [] then s_name s else student_name r)\<rparr>;
          s = s\<lparr>s_total := s_total s + 1\<rparr>;
          d = dd_get new_day (snd st) (date r);
          d = d\<lparr>d_total := d_total d + 1\<rparr>;
          s = (if status r = ''P'' then s\<lparr>s_present := s_present s + 1\<rparr> else s);
          d = (if status r = ''P'' then d\<lparr>d_present := d_present d + 1\<rparr> else d)
      in (dd_set sid s (fst st), dd_set (date r) d (snd st)))"

fun tally_all :: "tallies \<Rightarrow> attendance list \<Rightarrow> tallies" where
  "tally_all st [] = st"
| "tally_all st (r # rs) = tally_all (tally r st) rs"

text \<open>\<^verbatim>\<open>round((present / total * 100) if total else 0, 2)\<close>\<close>

definition percent :: "int \<Rightarrow> int \<Rightarrow> rat" where
  "percent pres tot =
     py_round2 (if tot \<noteq> 0 then fmul (fdiv pres tot) 100 else 0)"

definition summary :: "string \<times> student_acc \<Rightarrow> student_summary" where
  "summary kv =
     \<lparr>sum_student_id = fst kv, sum_name = s_name (snd kv), sum_present = s_present (snd kv),
      sum_total = s_total (snd kv), percentage = percent (s_present (snd kv)) (s_total (snd kv))\<rparr>"

definition daily_rate :: "string \<times> day_acc \<Rightarrow> day_rate" where
  "daily_rate kv =
     \<lparr>rate_date = fst kv, rate_present = d_present (snd kv), rate_total = d_total (snd kv),
      rate = percent (d_present (snd kv)) (d_total (snd kv))\<rparr>"

text \<open>
  \<^verbatim>\<open>analyze\<close>. The threshold is a number, an integer or a float, and is compared with
  the percentage as such. \<^verbatim>\<open>sorted(daily.items())\<close> orders the pairs by their dates:
  the dates are the keys of a dictionary, no two are equal, and so the comparison of two
  pairs never goes on to the second component.
\<close>

definition analyze :: "attendance list \<Rightarrow> rat \<Rightarrow> analysis" where
  "analyze records defaulter_threshold =
     (let records = deduplicate_records records;
          st = tally_all ([], []) records;
          result = map summary (fst st);
          defaulters = filter (\<lambda>r. percentage r < defaulter_threshold) result;
          daily_rates = map daily_rate (sort_key fst (snd st))
      in \<lparr>students = result, defaulters = defaulters, daily_rates = daily_rates\<rparr>)"

section \<open>A sample input\<close>

text \<open>
  A list of records for \<^verbatim>\<open>analyze\<close>: one student on 160 days, present on the first 23
  of them and absent on the others.
\<close>

definition register_160 :: "attendance list" where
  "register_160 =
     map (\<lambda>i. \<lparr>student_id = ''S1'', student_name = ''Asha'',
                date = isoformat \<lparr>year = 2024, month = 1 + i div 28, day = 1 + i mod 28\<rparr>,
                status = (if i < 23 then ''P'' else ''A'')\<rparr>) [0..<160]"
section \<open>The canonical date string parses to the date it prints\<close>

lemma lt10_cases: "n < 10 \<Longrightarrow> n \<in> {0, 1, 2, 3, 4, 5, 6, 7, 8, 9::nat}"
  by auto

lemma digit_char_props:
  assumes "n < 10"
  shows "CHR ''0'' \<le> digit_char n" "digit_char n \<le> CHR ''9''"
    "digit_val (digit_char n) = n" "\<not> is_space (digit_char n)"
  using lt10_cases [OF assms]
  by (auto simp: digit_char_def digit_val_def is_space_def)

lemma dec_small: "n < 10 \<Longrightarrow> dec n = [digit_char n]"
  by (simp add: dec.simps)

lemma dec_step: "10 \<le> n \<Longrightarrow> dec n = dec (n div 10) @ [digit_char (n mod 10)]"
  by (subst dec.simps) simp

lemma zfill4:
  assumes "y < 10000"
  shows "zfill 4 y = [digit_char (y div 10 div 10 div 10), digit_char (y div 10 div 10 mod 10),
                      digit_char (y div 10 mod 10), digit_char (y mod 10)]"
proof -
  consider "y < 10" | "10 \<le> y" "y < 100" | "100 \<le> y" "y < 1000" | "1000 \<le> y"
    by linarith
  then show ?thesis
  proof cases
    case 1
    then show ?thesis by (simp add: zfill_def dec_small digit_char_def numeral_3_eq_3)
  next
    case 2
    then have "dec y = [digit_char (y div 10), digit_char (y mod 10)]"
      by (simp add: dec_step dec_small)
    with 2 show ?thesis by (simp add: zfill_def digit_char_def numeral_2_eq_2)
  next
    case 3
    then have "dec y = [digit_char (y div 10 div 10), digit_char (y div 10 mod 10), digit_char (y mod 10)]"
      by (simp add: dec_step dec_small)
    with 3 show ?thesis by (simp add: zfill_def digit_char_def)
  next
    case 4
    with assms have "dec y = [digit_char (y div 10 div 10 div 10), digit_char (y div 10 div 10 mod 10), digit_char (y div 10 mod 10), digit_char (y mod 10)]"
      by (simp add: dec_step dec_small)
    with 4 show ?thesis by (simp add: zfill_def)
  qed
qed

lemma zfill2:
  assumes "m < 100"
  shows "zfill 2 m = [digit_char (m div 10), digit_char (m mod 10)]"
proof (cases "m < 10")
  case True
  then show ?thesis by (simp add: zfill_def dec_small digit_char_def)
next
  case False
  with assms show ?thesis by (simp add: zfill_def dec_step dec_small)
qed


lemma rmatch_digit:
  "n < 10 \<Longrightarrow> rmatch re_digit (digit_char n # s) = [([digit_char n], s)]"
  by (simp add: re_digit_def digit_char_props)

lemma rmatch_Y_zfill:
  assumes "y < 10000"
  shows "rmatch re_Y (zfill 4 y @ s) = [(zfill 4 y, s)]"
proof -
  have "y div 10 div 10 div 10 < 10" "y div 10 div 10 mod 10 < 10" "y div 10 mod 10 < 10"
    "y mod 10 < 10"
    using assms by (simp_all add: div_mult2_eq [symmetric])
  then show ?thesis
    by (simp add: zfill4 [OF assms] re_Y_def rmatch_digit)
qed

lemma le12_cases: "1 \<le> m \<Longrightarrow> m \<le> 12 \<Longrightarrow> m \<in> {1, 2, 3, 4, 5, 6, 7, 8, 9, 10, 11, 12::nat}"
  by simp arith

lemma le31_cases:
  "1 \<le> d \<Longrightarrow> d \<le> 31 \<Longrightarrow>
   d \<in> {1, 2, 3, 4, 5, 6, 7, 8, 9, 10, 11, 12, 13, 14, 15, 16, 17, 18, 19, 20,
        21, 22, 23, 24, 25, 26, 27, 28, 29, 30, 31::nat}"
  by simp arith

lemma rmatch_m_zfill:
  assumes "1 \<le> m" "m \<le> 12"
  shows "\<exists>ms. rmatch re_m (zfill 2 m @ s) = (zfill 2 m, s) # ms \<and> py_int (zfill 2 m) = m"
  using le12_cases [OF assms]
  by (auto simp: zfill2 digit_char_def re_m_def re_lit_def py_int_def strip_def is_space_def
      digit_val_def)

lemma rmatch_d_zfill:
  assumes "1 \<le> d" "d \<le> 31"
  shows "\<exists>ds. rmatch re_d (zfill 2 d @ s) = (zfill 2 d, s) # ds \<and> py_int (zfill 2 d) = d"
  using le31_cases [OF assms]
  by (auto simp: zfill2 digit_char_def re_d_def re_lit_def re_digit_def py_int_def strip_def
      is_space_def digit_val_def)

lemma py_int_zfill4:
  assumes "y < 10000"
  shows "py_int (zfill 4 y) = y"
proof -
  have d: "y div 10 div 10 div 10 < 10" "y div 10 div 10 mod 10 < 10" "y div 10 mod 10 < 10"
    "y mod 10 < 10"
    using assms by (simp_all add: div_mult2_eq [symmetric])
  have "strip (zfill 4 y) = zfill 4 y"
    by (simp add: zfill4 [OF assms] strip_def digit_char_props d)
  then have "py_int (zfill 4 y) =
      10 * (10 * (10 * (y div 10 div 10 div 10) + y div 10 div 10 mod 10) + y div 10 mod 10)
        + y mod 10"
    by (simp add: py_int_def zfill4 [OF assms] digit_char_props d)
  also have "\<dots> = y"
    by (simp only: mult_div_mod_eq)
  finally show ?thesis .
qed

lemma match_format_isoformat:
  assumes "date_ok d"
  shows "match_format (isoformat d) =
    Some (zfill 4 (year d), zfill 2 (month d), zfill 2 (day d), [])"
proof -
  have y: "year d < 10000" and m: "1 \<le> month d" "month d \<le> 12"
    and dd: "1 \<le> day d" "day d \<le> 31"
    using assms by (auto simp: date_ok_def days_in_month_def split: if_splits)
  obtain ms where ms: "rmatch re_m (zfill 2 (month d) @ CHR ''-'' # zfill 2 (day d)) =
      (zfill 2 (month d), CHR ''-'' # zfill 2 (day d)) # ms"
    using rmatch_m_zfill [OF m] by blast
  obtain ds where ds: "rmatch re_d (zfill 2 (day d) @ []) = (zfill 2 (day d), []) # ds"
    using rmatch_d_zfill [OF dd] by blast
  show ?thesis
    using ms ds
    by (simp add: match_format_def isoformat_def rmatch_Y_zfill [OF y] re_lit_def)
qed

lemma strptime_isoformat:
  assumes "date_ok d"
  shows "strptime (isoformat d) = Some d"
proof -
  have y: "year d < 10000" and m: "1 \<le> month d" "month d \<le> 12"
    and dd: "1 \<le> day d" "day d \<le> 31"
    using assms by (auto simp: date_ok_def days_in_month_def split: if_splits)
  have "py_int (zfill 2 (month d)) = month d" "py_int (zfill 2 (day d)) = day d"
    using rmatch_m_zfill [OF m] rmatch_d_zfill [OF dd] by blast+
  moreover have eq: "\<lparr>year = year d, month = month d, day = day d\<rparr> = d"
    by simp
  ultimately show ?thesis
    using assms
    by (simp add: strptime_def match_format_isoformat py_int_zfill4 [OF y] Let_def eq)
qed

lemma strptime_date_ok: "strptime s = Some d \<Longrightarrow> date_ok d"
  by (simp add: strptime_def Let_def split: option.splits prod.splits if_splits)

lemma length_isoformat:
  assumes "date_ok d"
  shows "length (isoformat d) = 10"
proof -
  have "year d < 10000" "month d < 100" "day d < 100"
    using assms by (auto simp: date_ok_def days_in_month_def split: if_splits)
  then show ?thesis
    by (simp add: isoformat_def zfill2 zfill4)
qed
section \<open>Properties of the normaliser\<close>

lemma clean_row_None:
  assumes "row_get r ''student_name'' = PNone \<or> row_get r ''date'' = PNone"
  shows "clean_row r = Inl AttributeError"
  using assms by (cases "row_get r ''student_name''") (auto simp: clean_row_def)

lemma clean_row_PStr:
  assumes "row_get r ''student_name'' = PStr nm" "row_get r ''date'' = PStr ds"
  shows "clean_row r =
    (case strptime (strip ds) of
       None \<Rightarrow> Inl (ValueError (''Invalid date: '' @ strip ds))
     | Some d \<Rightarrow>
         Inr \<lparr>student_id = strip (py_str (row_get r ''student_id'')), student_name = strip nm,
              date = isoformat d,
              status = (let s = upper (strip (py_str (row_get r ''status'')))
                        in if s \<in> set known_codes then s else take 1 s)\<rparr>)"
  using assms by (cases "upper (strip (py_str (row_get r ''status'')))")
    (auto simp: clean_row_def Let_def split: option.splits)

lemma row_get_upd_other: "k \<noteq> k' \<Longrightarrow> row_get (r(k \<mapsto> v)) k' = row_get r k'"
  by (simp add: row_get_def)

lemma row_get_upd_same: "row_get (r(k \<mapsto> v)) k = v"
  by (simp add: row_get_def)

lemma known_P: "upper (strip ''P'') = ''P''" "''P'' \<in> set known_codes"
  by (simp_all add: upper_def strip_def is_space_def upper_char_def known_codes_def)

lemma clean_row_success_iff:
  "(\<exists>a. clean_row r = Inr a) \<longleftrightarrow>
   row_get r ''student_name'' \<noteq> PNone \<and>
   (\<exists>ds d. row_get r ''date'' = PStr ds \<and> strptime (strip ds) = Some d)"
proof (cases "row_get r ''student_name'' = PNone \<or> row_get r ''date'' = PNone")
  case True
  then show ?thesis
    by (auto simp: clean_row_None)
next
  case False
  then obtain nm ds where g: "row_get r ''student_name'' = PStr nm" "row_get r ''date'' = PStr ds"
    by (metis pyval.exhaust)
  show ?thesis
    by (simp add: clean_row_PStr [OF g] g split: option.splits)
qed

lemma status_example_present:
  "clean_row [''student_id'' \<mapsto> PStr ''S1'', ''student_name'' \<mapsto> PStr ''Alice'',
      ''date'' \<mapsto> PStr ''2024-01-01'', ''status'' \<mapsto> PStr ''Present''] =
    Inr \<lparr>student_id = ''S1'', student_name = ''Alice'', date = ''2024-01-01'', status = ''P''\<rparr>"
  by code_simp

lemma status_example_x:
  "clean_row [''student_id'' \<mapsto> PStr ''S1'', ''student_name'' \<mapsto> PStr ''Alice'',
      ''date'' \<mapsto> PStr ''2024-01-01'', ''status'' \<mapsto> PStr ''X''] =
    Inr \<lparr>student_id = ''S1'', student_name = ''Alice'', date = ''2024-01-01'', status = ''X''\<rparr>"
  by code_simp

lemma clean_row_cases:
  obtains "row_get r ''student_name'' = PNone \<or> row_get r ''date'' = PNone"
      "clean_row r = Inl AttributeError"
  | nm ds where "row_get r ''student_name'' = PStr nm" "row_get r ''date'' = PStr ds"
      "strptime (strip ds) = None"
      "clean_row r = Inl (ValueError (''Invalid date: '' @ strip ds))"
  | nm ds d a where "row_get r ''student_name'' = PStr nm" "row_get r ''date'' = PStr ds"
      "strptime (strip ds) = Some d" "clean_row r = Inr a" "date a = isoformat d"
proof (cases "row_get r ''student_name'' = PNone \<or> row_get r ''date'' = PNone")
  case True
  with that(1) show ?thesis
    by (simp add: clean_row_None)
next
  case False
  then obtain nm ds where g: "row_get r ''student_name'' = PStr nm" "row_get r ''date'' = PStr ds"
    by (metis pyval.exhaust)
  show ?thesis
  proof (cases "strptime (strip ds)")
    case None
    with g that(2) show ?thesis
      by (simp add: clean_row_PStr [OF g])
  next
    case (Some d)
    with g that(3) show ?thesis
      by (simp add: clean_row_PStr [OF g])
  qed
qed

lemma isoformat_inj:
  assumes "date_ok d" "date_ok d'" "isoformat d = isoformat d'"
  shows "d = d'"
proof -
  have "Some d = strptime (isoformat d)"
    using assms(1) by (simp add: strptime_isoformat)
  also have "\<dots> = Some d'"
    using assms(2,3) by (simp add: strptime_isoformat)
  finally show ?thesis
    by simp
qed

lemma clean_row_attr:
  "clean_row r = Inl AttributeError \<longleftrightarrow>
     row_get r ''student_name'' = PNone \<or> row_get r ''date'' = PNone"
  by (rule clean_row_cases [of r]) simp_all

lemma clean_row_value:
  "clean_row r = Inl (ValueError m) \<longleftrightarrow>
     row_get r ''student_name'' \<noteq> PNone \<and>
     (\<exists>ds. row_get r ''date'' = PStr ds \<and> strptime (strip ds) = None \<and>
        m = ''Invalid date: '' @ strip ds)"
  by (rule clean_row_cases [of r]) auto

lemma clean_row_ok:
  assumes "clean_row r = Inr a"
  shows "\<exists>ds d. row_get r ''date'' = PStr ds \<and> strptime (strip ds) = Some d \<and>
     date a = isoformat d \<and> length (date a) = 10 \<and> strptime (date a) = Some d"
proof (rule clean_row_cases [of r])
  fix nm ds d a'
  assume h: "row_get r ''date'' = PStr ds" "strptime (strip ds) = Some d"
    "clean_row r = Inr a'" "date a' = isoformat d"
  have "date_ok d"
    using h(2) by (rule strptime_date_ok)
  then show ?thesis
    using h assms by (simp add: strptime_isoformat length_isoformat)
qed (use assms in simp_all)

lemma clean_row_same_date:
  assumes "clean_row r = Inr a" "clean_row r' = Inr a'"
    and "row_get r ''date'' = PStr ds" "row_get r' ''date'' = PStr ds'"
  shows "date a = date a' \<longleftrightarrow> strptime (strip ds) = strptime (strip ds')"
proof -
  obtain d where d: "strptime (strip ds) = Some d" "date a = isoformat d"
    using clean_row_ok [OF assms(1)] assms(3) by auto
  obtain d' where d': "strptime (strip ds') = Some d'" "date a' = isoformat d'"
    using clean_row_ok [OF assms(2)] assms(4) by auto
  have "date_ok d" "date_ok d'"
    using d(1) d'(1) by (auto dest: strptime_date_ok)
  then have "isoformat d = isoformat d' \<longleftrightarrow> d = d'"
    using isoformat_inj by blast
  then show ?thesis
    by (simp add: d d')
qed

lemma clean_row_error_status:
  "clean_row (r(''status'' \<mapsto> v)) = Inl e \<longleftrightarrow> clean_row r = Inl e"
proof (cases e)
  case AttributeError
  then show ?thesis
    by (simp add: clean_row_attr row_get_upd_other)
next
  case (ValueError m)
  then show ?thesis
    by (simp add: clean_row_value row_get_upd_other)
qed

lemma clean_row_outcomes:
  "(clean_row r = Inl AttributeError \<longleftrightarrow>
      row_get r ''student_name'' = PNone \<or> row_get r ''date'' = PNone) \<and>
   (\<forall>m. clean_row r = Inl (ValueError m) \<longleftrightarrow>
      row_get r ''student_name'' \<noteq> PNone \<and>
      (\<exists>ds. row_get r ''date'' = PStr ds \<and> strptime (strip ds) = None \<and>
         m = ''Invalid date: '' @ strip ds)) \<and>
   (\<forall>a. clean_row r = Inr a \<longrightarrow>
      (\<exists>ds d. row_get r ''date'' = PStr ds \<and> strptime (strip ds) = Some d \<and>
         date a = isoformat d \<and> length (date a) = 10 \<and> strptime (date a) = Some d)) \<and>
   (\<forall>r' a a' ds ds'. clean_row r = Inr a \<and> clean_row r' = Inr a' \<and>
      row_get r ''date'' = PStr ds \<and> row_get r' ''date'' = PStr ds' \<longrightarrow>
      (date a = date a' \<longleftrightarrow> strptime (strip ds) = strptime (strip ds')))"
proof (intro conjI allI impI)
  show "clean_row r = Inl AttributeError \<longleftrightarrow>
      row_get r ''student_name'' = PNone \<or> row_get r ''date'' = PNone"
    by (rule clean_row_attr)
next
  fix m
  show "clean_row r = Inl (ValueError m) \<longleftrightarrow>
      row_get r ''student_name'' \<noteq> PNone \<and>
      (\<exists>ds. row_get r ''date'' = PStr ds \<and> strptime (strip ds) = None \<and>
         m = ''Invalid date: '' @ strip ds)"
    by (rule clean_row_value)
next
  fix a
  assume "clean_row r = Inr a"
  then show "\<exists>ds d. row_get r ''date'' = PStr ds \<and> strptime (strip ds) = Some d \<and>
         date a = isoformat d \<and> length (date a) = 10 \<and> strptime (date a) = Some d"
    by (rule clean_row_ok)
next
  fix r' a a' ds ds'
  assume "clean_row r = Inr a \<and> clean_row r' = Inr a' \<and>
      row_get r ''date'' = PStr ds \<and> row_get r' ''date'' = PStr ds'"
  then show "date a = date a' \<longleftrightarrow> strptime (strip ds) = strptime (strip ds')"
    using clean_row_same_date by blast
qed

text \<open>
  Claim C1 has the normaliser reject a record whose status, trimmed and in upper case, is
  not a known code and does not begin with one. The code has no such check: the row
  below, with the status \<^verbatim>\<open>X\<close>, is accepted with the status \<^verbatim>\<open>X\<close>.
\<close>

theorem clean_row_unknown_status_accepted:
  "clean_row [''student_id'' \<mapsto> PStr ''S1'', ''student_name'' \<mapsto> PStr ''Alice'',
      ''date'' \<mapsto> PStr ''2024-01-01'', ''status'' \<mapsto> PStr ''X''] =
    Inr \<lparr>student_id = ''S1'', student_name = ''Alice'', date = ''2024-01-01'', status = ''X''\<rparr> \<and>
   upper (strip ''X'') = ''X'' \<and> ''X'' \<notin> set known_codes"
  by code_simp

text \<open>
  Claim C1, as the code has it: when the upper case of the trimmed status \<open>t\<close> is not a
  known code, the status of the record is the first character of that upper case,
  whatever it is (and empty when \<open>t\<close> is empty), and the outcome is otherwise that of the
  same row with the status \<^verbatim>\<open>P\<close>: no row is refused for its status. The statement is
  for a status that \<open>upper_ok\<close> admits.
\<close>

theorem clean_row_first_char:
  assumes "t = strip (py_str (row_get r ''status''))" and "upper_ok t"
    and "upper t \<notin> set known_codes"
  shows "clean_row r =
    map_sum id (\<lambda>a. a\<lparr>status := take 1 (upper t)\<rparr>) (clean_row (r(''status'' \<mapsto> PStr ''P'')))"
proof (cases "row_get r ''student_name'' = PNone \<or> row_get r ''date'' = PNone")
  case True
  then have "row_get (r(''status'' \<mapsto> PStr ''P'')) ''student_name'' = PNone \<or>
    row_get (r(''status'' \<mapsto> PStr ''P'')) ''date'' = PNone"
    by (simp add: row_get_upd_other)
  with True show ?thesis
    by (simp add: clean_row_None)
next
  case False
  then obtain nm ds where g: "row_get r ''student_name'' = PStr nm" "row_get r ''date'' = PStr ds"
    by (metis pyval.exhaust)
  then have g': "row_get (r(''status'' \<mapsto> PStr ''P'')) ''student_name'' = PStr nm"
    "row_get (r(''status'' \<mapsto> PStr ''P'')) ''date'' = PStr ds"
    by (simp_all add: row_get_upd_other)
  show ?thesis
    using assms(1,3)
    by (simp add: clean_row_PStr [OF g] clean_row_PStr [OF g'] row_get_upd_other
        row_get_upd_same known_P split: option.splits)
qed

text \<open>
  A status that begins with the letter U+00E9, whose upper case is U+00C9, and ends with
  a no-break space.
\<close>

theorem clean_row_first_char_witness:
  "upper_ok [CHR 0xE9, CHR ''x''] \<and>
   upper [CHR 0xE9, CHR ''x''] = [CHR 0xC9, CHR ''X''] \<and>
   [CHR 0xC9, CHR ''X''] \<notin> set known_codes \<and>
   clean_row [''date'' \<mapsto> PStr ''2024-01-01'', ''status'' \<mapsto> PStr [CHR 0xE9, CHR ''x'', CHR 0xA0]] =
     map_sum id (\<lambda>a. a\<lparr>status := [CHR 0xC9]\<rparr>)
       (clean_row ([''date'' \<mapsto> PStr ''2024-01-01'',
          ''status'' \<mapsto> PStr [CHR 0xE9, CHR ''x'', CHR 0xA0]](''status'' \<mapsto> PStr ''P'')))"
proof -
  let ?r = "[''date'' \<mapsto> PStr ''2024-01-01'', ''status'' \<mapsto> PStr [CHR 0xE9, CHR ''x'', CHR 0xA0]]"
  have h1: "[CHR 0xE9, CHR ''x''] = strip (py_str (row_get ?r ''status''))"
    by code_simp
  have h2: "upper_ok [CHR 0xE9, CHR ''x'']"
    by code_simp
  have u: "upper [CHR 0xE9, CHR ''x''] = [CHR 0xC9, CHR ''X'']"
    by code_simp
  have h3: "[CHR 0xC9, CHR ''X''] \<notin> set known_codes"
    by code_simp
  have h3': "upper [CHR 0xE9, CHR ''x''] \<notin> set known_codes"
    unfolding u by (rule h3)
  have "clean_row ?r =
      map_sum id (\<lambda>a. a\<lparr>status := take 1 (upper [CHR 0xE9, CHR ''x''])\<rparr>)
        (clean_row (?r(''status'' \<mapsto> PStr ''P'')))"
    using clean_row_first_char [OF h1 h2 h3'] .
  then have "clean_row ?r =
      map_sum id (\<lambda>a. a\<lparr>status := [CHR 0xC9]\<rparr>) (clean_row (?r(''status'' \<mapsto> PStr ''P'')))"
    by (simp only: u take_Suc_Cons take_0 One_nat_def)
  with h2 u h3 show ?thesis
    by blast
qed

text \<open>
  Claim C2: a row whose date parses is normalised, and the status of the record is the
  trimmed, upper-case status when that is one of the known codes, its first character
  when it is any other non-empty string, and the empty string when it is empty.
  \<^verbatim>\<open>Present\<close> becomes \<^verbatim>\<open>P\<close>, and \<^verbatim>\<open>X\<close> stays \<^verbatim>\<open>X\<close>. No value of the status makes the
  normaliser fail: the row is accepted with every status, and on any row at all the
  error, if there is one, is the same for every status. The rows of the first part have
  a name that is a string (or no name), and a status that \<open>upper_ok\<close> admits.
\<close>

theorem clean_row_status:
  assumes "row_get r ''student_name'' = PStr nm" and "row_get r ''date'' = PStr ds"
    and "strptime (strip ds) = Some d" and "upper_ok (strip (py_str (row_get r ''status'')))"
  shows "clean_row r =
      Inr \<lparr>student_id = strip (py_str (row_get r ''student_id'')), student_name = strip nm,
           date = isoformat d,
           status = (let s = upper (strip (py_str (row_get r ''status'')))
                     in if s \<in> set known_codes then s else if s \<noteq> [] then [hd s] else [])\<rparr> \<and>
   (\<forall>v. \<exists>a. clean_row (r(''status'' \<mapsto> v)) = Inr a) \<and>
   (\<forall>r' v e. clean_row (r'(''status'' \<mapsto> v)) = Inl e \<longleftrightarrow> clean_row r' = Inl e) \<and>
   clean_row [''student_id'' \<mapsto> PStr ''S1'', ''student_name'' \<mapsto> PStr ''Alice'',
      ''date'' \<mapsto> PStr ''2024-01-01'', ''status'' \<mapsto> PStr ''Present''] =
    Inr \<lparr>student_id = ''S1'', student_name = ''Alice'', date = ''2024-01-01'', status = ''P''\<rparr> \<and>
   clean_row [''student_id'' \<mapsto> PStr ''S1'', ''student_name'' \<mapsto> PStr ''Alice'',
      ''date'' \<mapsto> PStr ''2024-01-01'', ''status'' \<mapsto> PStr ''X''] =
    Inr \<lparr>student_id = ''S1'', student_name = ''Alice'', date = ''2024-01-01'', status = ''X''\<rparr>"
proof (intro conjI allI)
  show "clean_row r =
      Inr \<lparr>student_id = strip (py_str (row_get r ''student_id'')), student_name = strip nm,
           date = isoformat d,
           status = (let s = upper (strip (py_str (row_get r ''status'')))
                     in if s \<in> set known_codes then s else if s \<noteq> [] then [hd s] else [])\<rparr>"
    by (cases "upper (strip (py_str (row_get r ''status'')))")
      (simp_all add: clean_row_PStr [OF assms(1,2)] assms(3) Let_def)
next
  fix v
  have "row_get (r(''status'' \<mapsto> v)) ''student_name'' \<noteq> PNone"
    "row_get (r(''status'' \<mapsto> v)) ''date'' = PStr ds"
    using assms(1,2) by (simp_all add: row_get_upd_other)
  with assms(3) show "\<exists>a. clean_row (r(''status'' \<mapsto> v)) = Inr a"
    unfolding clean_row_success_iff by blast
next
  fix r' v e
  show "clean_row (r'(''status'' \<mapsto> v)) = Inl e \<longleftrightarrow> clean_row r' = Inl e"
    by (rule clean_row_error_status)
qed (rule status_example_present status_example_x)+

text \<open>A row with no name, a date in a short form and a status with spaces around it.\<close>

theorem clean_row_status_witness:
  "row_get [''date'' \<mapsto> PStr ''2024-1-5'', ''status'' \<mapsto> PStr '' late ''] ''student_name'' = PStr [] \<and>
   strptime (strip ''2024-1-5'') = Some \<lparr>year = 2024, month = 1, day = 5\<rparr> \<and>
   upper_ok (strip '' late '') \<and>
   clean_row [''date'' \<mapsto> PStr ''2024-1-5'', ''status'' \<mapsto> PStr '' late ''] =
     Inr \<lparr>student_id = [], student_name = [], date = ''2024-01-05'', status = ''L''\<rparr> \<and>
   (\<exists>a. clean_row ([''date'' \<mapsto> PStr ''2024-1-5'', ''status'' \<mapsto> PStr '' late '']
      (''status'' \<mapsto> PNone)) = Inr a)"
proof -
  let ?r = "[''date'' \<mapsto> PStr ''2024-1-5'', ''status'' \<mapsto> PStr '' late '']"
  have h1: "row_get ?r ''student_name'' = PStr []"
    by code_simp
  have h2: "row_get ?r ''date'' = PStr ''2024-1-5''"
    by code_simp
  have h3: "strptime (strip ''2024-1-5'') = Some \<lparr>year = 2024, month = 1, day = 5\<rparr>"
    by code_simp
  have s: "strip (py_str (row_get ?r ''status'')) = strip '' late ''"
    by code_simp
  have h4': "upper_ok (strip '' late '')"
    by code_simp
  then have h4: "upper_ok (strip (py_str (row_get ?r ''status'')))"
    by (simp only: s)
  have e: "\<lparr>student_id = strip (py_str (row_get ?r ''student_id'')), student_name = strip [],
           date = isoformat \<lparr>year = 2024, month = 1, day = 5\<rparr>,
           status = (let s = upper (strip (py_str (row_get ?r ''status'')))
                     in if s \<in> set known_codes then s else if s \<noteq> [] then [hd s] else [])\<rparr> =
      \<lparr>student_id = [], student_name = [], date = ''2024-01-05'', status = ''L''\<rparr>"
    by code_simp
  note t = clean_row_status [OF h1 h2 h3 h4]
  have 1: "clean_row ?r =
      Inr \<lparr>student_id = [], student_name = [], date = ''2024-01-05'', status = ''L''\<rparr>"
    using conjunct1 [OF t] by (simp only: e)
  have 2: "\<exists>a. clean_row (?r(''status'' \<mapsto> PNone)) = Inr a"
    using conjunct1 [OF conjunct2 [OF t]] by blast
  from h1 h3 h4' 1 2 show ?thesis
    by blast
qed

text \<open>
  Claim C3 says that the normaliser fails exactly when the date does not parse, with the
  error of an invalid date, and that no other field makes it fail. The identifier and
  the status are converted with \<^verbatim>\<open>str\<close> before they are stripped, and the \<^verbatim>\<open>try\<close>
  turns every failure of the parser into that error; but the name and the date are
  stripped as they come, before the \<^verbatim>\<open>try\<close>, and \<^verbatim>\<open>None\<close>, which the reader of the file
  stores where a line is short, has no \<^verbatim>\<open>strip\<close>. The first row below is the line
  \<^verbatim>\<open>S1,2024-01-01,P\<close> under the header \<^verbatim>\<open>student_id,date,status,student_name\<close>: its date
  parses and the normaliser fails for its name. The second is the line \<^verbatim>\<open>S1,Alice\<close>
  under the header that the program writes: it has no date, and the error is not the one
  of an invalid date.
\<close>

theorem clean_row_none_name_fails:
  "clean_row [''student_id'' \<mapsto> PStr ''S1'', ''date'' \<mapsto> PStr ''2024-01-01'',
      ''status'' \<mapsto> PStr ''P'', ''student_name'' \<mapsto> PNone] = Inl AttributeError \<and>
   strptime (strip ''2024-01-01'') = Some \<lparr>year = 2024, month = 1, day = 1\<rparr> \<and>
   clean_row [''student_id'' \<mapsto> PStr ''S1'', ''student_name'' \<mapsto> PStr ''Alice'',
      ''date'' \<mapsto> PNone, ''status'' \<mapsto> PNone] = Inl AttributeError"
  by code_simp
section \<open>Properties of the deduplication\<close>

lemma dedup_loop_acc: "dedup_loop seen out rs = out @ dedup_loop seen [] rs"
proof (induction rs arbitrary: seen out)
  case Nil
  show ?case by simp
next
  case (Cons r rs)
  show ?case
    using Cons.IH [of seen out] Cons.IH [of "insert (student_id r, date r) seen" "out @ [r]"]
      Cons.IH [of "insert (student_id r, date r) seen" "[r]"]
    by (simp add: Let_def)
qed

lemma dedup_loop_Cons:
  "dedup_loop seen [] (r # rs) =
    (if dedup_key r \<in> seen then dedup_loop seen [] rs
     else r # dedup_loop (insert (dedup_key r) seen) [] rs)"
  using dedup_loop_acc [of "insert (dedup_key r) seen" "[r]" rs]
  by (simp add: Let_def dedup_key_def)

lemma dedup_loop_idem: "dedup_loop seen [] (dedup_loop seen [] rs) = dedup_loop seen [] rs"
proof (induction rs arbitrary: seen)
  case Nil
  show ?case by simp
next
  case (Cons r rs)
  show ?case
    by (simp add: dedup_loop_Cons Cons.IH del: dedup_loop.simps)
qed

lemma upt_0_Suc: "[0..<Suc n] = 0 # map Suc [0..<n]"
  by (simp add: upt_conv_Cons map_Suc_upt del: upt_Suc)

lemma dedup_loop_index:
  "dedup_loop seen [] rs =
    map (nth rs)
      (filter (\<lambda>i. dedup_key (rs ! i) \<notin> seen \<union> dedup_key ` set (take i rs)) [0..<length rs])"
proof (induction rs arbitrary: seen)
  case Nil
  show ?case by simp
next
  case (Cons r rs)
  let ?P = "\<lambda>S xs i. dedup_key (xs ! i) \<notin> S \<union> dedup_key ` set (take i xs)"
  have shift: "filter (?P seen (r # rs)) (map Suc [0..<length rs]) =
      map Suc (filter (?P (insert (dedup_key r) seen) rs) [0..<length rs])"
    by (simp add: filter_map o_def conj_ac)
  have tail: "map (nth (r # rs)) (map Suc is) = map (nth rs) is" for "is"
    by simp
  show ?case
  proof (cases "dedup_key r \<in> seen")
    case True
    then have "insert (dedup_key r) seen = seen"
      by auto
    with True show ?thesis
      by (simp only: dedup_loop_Cons Cons.IH upt_0_Suc length_Cons filter.simps shift tail)
        simp
  next
    case False
    then show ?thesis
      by (simp only: dedup_loop_Cons Cons.IH upt_0_Suc length_Cons filter.simps shift tail)
        simp
  qed
qed

lemma take_keys:
  assumes "i < length rs"
  shows "dedup_key (rs ! i) \<notin> dedup_key ` set (take i rs) \<longleftrightarrow>
    (\<forall>j<i. dedup_key (rs ! j) \<noteq> dedup_key (rs ! i))"
proof -
  have "x \<in> set (take i rs) \<longleftrightarrow> (\<exists>j<i. rs ! j = x)" for x
    using assms by (auto simp: in_set_conv_nth)
  then have "dedup_key (rs ! i) \<in> dedup_key ` set (take i rs) \<longleftrightarrow>
      (\<exists>j<i. dedup_key (rs ! j) = dedup_key (rs ! i))"
    unfolding image_iff by metis
  then show ?thesis
    by blast
qed

lemma dedup_first_occurrences:
  "deduplicate_records rs =
    map (nth rs)
      (filter (\<lambda>i. \<forall>j<i. dedup_key (rs ! j) \<noteq> dedup_key (rs ! i)) [0..<length rs])"
proof -
  have "filter (\<lambda>i. dedup_key (rs ! i) \<notin> {} \<union> dedup_key ` set (take i rs)) [0..<length rs] =
      filter (\<lambda>i. \<forall>j<i. dedup_key (rs ! j) \<noteq> dedup_key (rs ! i)) [0..<length rs]"
    by (rule filter_cong [OF refl]) (simp add: take_keys)
  then show ?thesis
    by (simp add: deduplicate_records_def dedup_loop_index)
qed

lemma dedup_idem: "deduplicate_records (deduplicate_records rs) = deduplicate_records rs"
  by (simp add: deduplicate_records_def dedup_loop_idem)

lemma dedup_three:
  assumes "dedup_key r1 = dedup_key r2" "dedup_key r3 \<noteq> dedup_key r1"
  shows "deduplicate_records [r1, r2, r3] = [r1, r3]"
  using assms by (simp add: deduplicate_records_def dedup_loop_Cons del: dedup_loop.simps(2))
section \<open>The tallies of the loop\<close>

lemma map_of_dd_set: "map_of (dd_set k v d) = (map_of d)(k \<mapsto> v)"
  by (induction d) (auto simp: fun_eq_iff)

lemma dd_get_dd_set: "dd_get dflt (dd_set k v d) k' = (if k' = k then v else dd_get dflt d k')"
  by (simp add: dd_get_def map_of_dd_set)

lemma keys_dd_set: "fst ` set (dd_set k v d) = insert k (fst ` set d)"
  by (induction d) auto

lemma distinct_dd_set: "distinct (map fst d) \<Longrightarrow> distinct (map fst (dd_set k v d))"
  by (induction d) (auto simp: keys_dd_set)

lemma dd_get_member:
  assumes "distinct (map fst d)" "(k, v) \<in> set d"
  shows "dd_get dflt d k = v"
  using assms by (simp add: dd_get_def)

lemma students_tally:
  "dd_get new_student (fst (tally r st)) k =
    (let s = dd_get new_student (fst st) k
     in if k = student_id r
        then \<lparr>s_name = (if s_name s \<noteq> [] then s_name s else student_name r),
              s_present = s_present s + (if status r = ''P'' then 1 else 0),
              s_total = s_total s + 1\<rparr>
        else s)"
  by (simp add: tally_def Let_def dd_get_dd_set)

lemma days_tally:
  "dd_get new_day (snd (tally r st)) k =
    (let d = dd_get new_day (snd st) k
     in if k = date r
        then \<lparr>d_present = d_present d + (if status r = ''P'' then 1 else 0),
              d_total = d_total d + 1\<rparr>
        else d)"
  by (simp add: tally_def Let_def dd_get_dd_set)

lemma keys_tally:
  "fst ` set (fst (tally r st)) = insert (student_id r) (fst ` set (fst st))"
  "fst ` set (snd (tally r st)) = insert (date r) (fst ` set (snd st))"
  by (simp_all add: tally_def Let_def keys_dd_set)

lemma distinct_tally:
  "distinct (map fst (fst st)) \<Longrightarrow> distinct (map fst (fst (tally r st)))"
  "distinct (map fst (snd st)) \<Longrightarrow> distinct (map fst (snd (tally r st)))"
  by (simp_all add: tally_def Let_def distinct_dd_set)

lemma keys_tally_all:
  "fst ` set (fst (tally_all st rs)) = fst ` set (fst st) \<union> student_id ` set rs"
  "fst ` set (snd (tally_all st rs)) = fst ` set (snd st) \<union> date ` set rs"
  by (induction rs arbitrary: st) (auto simp: keys_tally)

lemma distinct_tally_all:
  "distinct (map fst (fst st)) \<Longrightarrow> distinct (map fst (fst (tally_all st rs)))"
  "distinct (map fst (snd st)) \<Longrightarrow> distinct (map fst (snd (tally_all st rs)))"
  by (induction rs arbitrary: st) (simp_all add: distinct_tally)

lemma student_total_all:
  "s_total (dd_get new_student (fst (tally_all st rs)) k) =
    s_total (dd_get new_student (fst st) k) + int (length (filter (\<lambda>r. student_id r = k) rs))"
  by (induction rs arbitrary: st) (simp_all add: students_tally Let_def)

lemma student_present_all:
  "s_present (dd_get new_student (fst (tally_all st rs)) k) =
    s_present (dd_get new_student (fst st) k) +
    int (length (filter (\<lambda>r. student_id r = k \<and> status r = ''P'') rs))"
  by (induction rs arbitrary: st) (simp_all add: students_tally Let_def)

lemma day_total_all:
  "d_total (dd_get new_day (snd (tally_all st rs)) k) =
    d_total (dd_get new_day (snd st) k) + int (length (filter (\<lambda>r. date r = k) rs))"
  by (induction rs arbitrary: st) (simp_all add: days_tally Let_def)

lemma day_present_all:
  "d_present (dd_get new_day (snd (tally_all st rs)) k) =
    d_present (dd_get new_day (snd st) k) +
    int (length (filter (\<lambda>r. date r = k \<and> status r = ''P'') rs))"
  by (induction rs arbitrary: st) (simp_all add: days_tally Let_def)

lemma student_name_all:
  "s_name (dd_get new_student (fst (tally_all st rs)) k) =
    (if s_name (dd_get new_student (fst st) k) \<noteq> [] then s_name (dd_get new_student (fst st) k)
     else case filter (\<lambda>r. student_id r = k \<and> student_name r \<noteq> []) rs of
            [] \<Rightarrow> [] | r # _ \<Rightarrow> student_name r)"
  by (induction rs arbitrary: st) (simp_all add: students_tally Let_def)
section \<open>Rounding\<close>

lemma rhe_cases:
  "round_half_even x = \<lfloor>x\<rfloor> \<and> x - of_int \<lfloor>x\<rfloor> \<le> 1 / 2 \<or>
   round_half_even x = \<lfloor>x\<rfloor> + 1 \<and> 1 / 2 \<le> x - of_int \<lfloor>x\<rfloor>"
  by (auto simp: round_half_even_def Let_def)

lemma rhe_err: "\<bar>of_int (round_half_even x) - x\<bar> \<le> 1 / 2"
proof -
  have "of_int \<lfloor>x\<rfloor> \<le> x" "x < of_int \<lfloor>x\<rfloor> + 1"
    by linarith+
  then show ?thesis
    using rhe_cases [of x] by auto
qed

lemma rhe_le:
  assumes "x \<le> of_int n"
  shows "round_half_even x \<le> n"
proof -
  have f: "\<lfloor>x\<rfloor> \<le> n"
    using assms by (simp add: floor_le_iff)
  show ?thesis
    using rhe_cases [of x]
  proof
    assume "round_half_even x = \<lfloor>x\<rfloor> \<and> x - of_int \<lfloor>x\<rfloor> \<le> 1 / 2"
    with f show ?thesis by simp
  next
    assume h: "round_half_even x = \<lfloor>x\<rfloor> + 1 \<and> 1 / 2 \<le> x - of_int \<lfloor>x\<rfloor>"
    then have "of_int \<lfloor>x\<rfloor> < x"
      by linarith
    with assms have "(of_int \<lfloor>x\<rfloor> :: rat) < of_int n"
      by linarith
    then have "\<lfloor>x\<rfloor> < n"
      by simp
    with h show ?thesis by simp
  qed
qed

lemma rhe_ge:
  assumes "of_int n \<le> x"
  shows "n \<le> round_half_even x"
proof -
  have "n \<le> \<lfloor>x\<rfloor>"
    using assms by (simp add: le_floor_iff)
  then show ?thesis
    using rhe_cases [of x] by auto
qed

lemma ilog2_le7:
  assumes "q \<le> 128"
  shows "ilog2 q \<le> 7"
proof (cases "1 \<le> q")
  case True
  have "\<lfloor>q\<rfloor> \<le> 128"
    using assms by (simp add: floor_le_iff)
  then have "nat \<lfloor>q\<rfloor> < 256"
    by linarith
  then have "nat \<lfloor>q\<rfloor> < 2 ^ 8"
    by simp
  then have "floorlog 2 (nat \<lfloor>q\<rfloor>) \<le> 8"
    by (intro floorlog_leI) simp_all
  with True show ?thesis
    by (simp add: ilog2_def bitlen_def)
next
  case False
  then show ?thesis
    using bitlen_nonneg [of "\<lceil>1 / q\<rceil> - 1"] by (simp add: ilog2_def)
qed

lemma fl_form:
  assumes "0 < q" "q \<le> 128"
  shows "\<exists>N\<ge>45. fl q = of_int (round_half_even (q * 2 ^ N)) / 2 ^ N"
proof -
  define e where "e = max (ilog2 \<bar>q\<bar> - 52) (- 1074)"
  have "e \<le> - 45"
    using ilog2_le7 [of "\<bar>q\<bar>"] assms by (simp add: e_def)
  define N where "N = nat (- e)"
  have N: "45 \<le> N" "e = - int N"
    using \<open>e \<le> - 45\<close> by (simp_all add: N_def)
  have p: "(2::rat) powi e = 1 / 2 ^ N"
    by (simp add: N(2) power_int_minus_divide)
  have "fl q = of_int (round_half_even (q / 2 powi e)) * 2 powi e"
    using assms(1) by (simp add: fl_def e_def Let_def)
  also have "\<dots> = of_int (round_half_even (q * 2 ^ N)) / 2 ^ N"
    by (simp add: p)
  finally show ?thesis
    using N(1) by blast
qed

lemma fl_props:
  assumes "0 \<le> q" "q \<le> of_int n" "n \<le> 128"
  shows "0 \<le> fl q" "fl q \<le> of_int n" "\<bar>fl q - q\<bar> \<le> 1 / 2 ^ 46"
proof -
  have "0 \<le> fl q \<and> fl q \<le> of_int n \<and> \<bar>fl q - q\<bar> \<le> 1 / 2 ^ 46"
  proof (cases "q = 0")
    case True
    with assms show ?thesis
      by (simp add: fl_def)
  next
    case False
    have "(of_int n :: rat) \<le> 128"
      using assms(3) by (metis of_int_le_iff of_int_numeral)
    with False assms obtain N where N: "45 \<le> N"
      and f: "fl q = of_int (round_half_even (q * 2 ^ N)) / 2 ^ N"
      using fl_form [of q] by auto
    have pos: "(0::rat) < 2 ^ N"
      by simp
    have "of_int 0 \<le> q * 2 ^ N"
      using assms(1) by simp
    then have "0 \<le> round_half_even (q * 2 ^ N)"
      by (rule rhe_ge)
    then have 1: "0 \<le> fl q"
      by (simp add: f)
    have "q * 2 ^ N \<le> of_int (n * 2 ^ N)"
      using assms(2) by simp
    then have "round_half_even (q * 2 ^ N) \<le> n * 2 ^ N"
      by (rule rhe_le)
    then have "(of_int (round_half_even (q * 2 ^ N)) :: rat) \<le> of_int (n * 2 ^ N)"
      by (simp only: of_int_le_iff)
    then have 2: "fl q \<le> of_int n"
      using pos by (simp add: f divide_le_eq)
    have "fl q - q = (of_int (round_half_even (q * 2 ^ N)) - q * 2 ^ N) / 2 ^ N"
      by (simp add: f diff_divide_distrib)
    then have "\<bar>fl q - q\<bar> = \<bar>of_int (round_half_even (q * 2 ^ N)) - q * 2 ^ N\<bar> / 2 ^ N"
      by (simp add: abs_divide)
    also have "\<dots> \<le> (1 / 2) / 2 ^ N"
      using rhe_err [of "q * 2 ^ N"] pos by (intro divide_right_mono) simp_all
    also have "\<dots> = 1 / 2 ^ Suc N"
      by simp
    also have "\<dots> \<le> 1 / 2 ^ 46"
    proof -
      have "(2::rat) ^ 46 \<le> 2 ^ Suc N"
        using N by (intro power_increasing) simp_all
      then show ?thesis
        by (intro divide_left_mono) simp_all
    qed
    finally have 3: "\<bar>fl q - q\<bar> \<le> 1 / 2 ^ 46" .
    from 1 2 3 show ?thesis
      by blast
  qed
  then show "0 \<le> fl q" "fl q \<le> of_int n" "\<bar>fl q - q\<bar> \<le> 1 / 2 ^ 46"
    by blast+
qed

lemma fl_zero: "fl 0 = 0"
  by (simp add: fl_def)

lemma rhe_zero: "round_half_even 0 = 0"
  by (simp add: round_half_even_def)

lemma percent_zero_total: "percent p 0 = 0"
  by (simp add: percent_def py_round2_def rhe_zero fl_zero)

lemma percent_zero_present: "percent 0 t = 0"
  by (simp add: percent_def py_round2_def fmul_def fdiv_def rhe_zero fl_zero)

lemma percent_3_4: "percent 3 4 = 75"
  by code_simp

lemma percent_unfold:
  "t \<noteq> 0 \<Longrightarrow> percent p t =
    fl (of_int (round_half_even (fl (fl (of_int p / of_int t) * 100) * 100)) / 100)"
  by (simp add: percent_def py_round2_def fmul_def fdiv_def)

lemma percent_props:
  assumes "0 \<le> p" "p \<le> t" "0 < t"
  shows "0 \<le> percent p t \<and> percent p t \<le> 100 \<and>
    (\<exists>k. percent p t = fl (of_int k / 100) \<and>
      \<bar>of_int k / 100 - 100 * of_int p / of_int t :: rat\<bar> \<le> 1 / 200 + 1 / 2 ^ 39) \<and>
    \<bar>percent p t - 100 * of_int p / of_int t\<bar> \<le> 1 / 200 + 1 / 2 ^ 39"
proof -
  define q :: rat where "q = of_int p / of_int t"
  define x1 where "x1 = fl q"
  define x2 where "x2 = fl (x1 * 100)"
  define k where "k = round_half_even (x2 * 100)"
  define y :: rat where "y = of_int k / 100"
  define eps :: rat where "eps = 1 / 2 ^ 46"
  have pct: "percent p t = fl y"
    using assms(3) by (simp add: percent_unfold y_def k_def x2_def x1_def q_def)
  have q: "0 \<le> q" "q \<le> of_int 1"
    using assms by (simp_all add: q_def)
  have x1: "0 \<le> x1" "x1 \<le> 1" "\<bar>x1 - q\<bar> \<le> eps"
    using fl_props [OF q] by (simp_all add: x1_def eps_def)
  have "0 \<le> x1 * 100" "x1 * 100 \<le> of_int 100"
    using x1 by simp_all
  from fl_props [OF this] have x2: "0 \<le> x2" "x2 \<le> 100" "\<bar>x2 - x1 * 100\<bar> \<le> eps"
    by (simp_all add: x2_def eps_def)
  have kb: "of_int 0 \<le> x2 * 100" "x2 * 100 \<le> of_int 10000"
    using x2 by simp_all
  have k: "0 \<le> k" "k \<le> 10000"
    unfolding k_def using rhe_ge [OF kb(1)] rhe_le [OF kb(2)] by blast+
  have "\<bar>of_int k - x2 * 100\<bar> \<le> 1 / 2"
    unfolding k_def by (rule rhe_err)
  then have yx: "\<bar>y - x2\<bar> \<le> 1 / 200"
    unfolding y_def by (simp add: abs_le_iff field_simps)
  have "(0::rat) \<le> of_int k" "(of_int k :: rat) \<le> 10000"
    using k by simp_all
  then have "0 \<le> y" "y \<le> of_int 100"
    by (simp_all add: y_def)
  from fl_props [OF this] have p: "0 \<le> fl y" "fl y \<le> 100" "\<bar>fl y - y\<bar> \<le> eps"
    by (simp_all add: eps_def)
  have e: "128 * eps = 1 / 2 ^ 39" "0 \<le> eps"
    by (simp_all add: eps_def)
  have "\<bar>y - 100 * q\<bar> \<le> 1 / 200 + 128 * eps"
    using yx x2(3) x1(3) e(2) by linarith
  then have b1: "\<bar>y - 100 * q\<bar> \<le> 1 / 200 + 1 / 2 ^ 39"
    by (simp only: e(1))
  have "\<bar>fl y - 100 * q\<bar> \<le> 1 / 200 + 128 * eps"
    using yx x2(3) x1(3) p(3) e(2) by linarith
  then have b2: "\<bar>fl y - 100 * q\<bar> \<le> 1 / 200 + 1 / 2 ^ 39"
    by (simp only: e(1))
  have "100 * q = 100 * of_int p / of_int t"
    by (simp add: q_def)
  with b1 b2 p(1,2) pct show ?thesis
    unfolding y_def by auto
qed
section \<open>Properties of the analysis\<close>

lemma dedup_loop_keys: "dedup_key ` set (dedup_loop seen [] rs) = dedup_key ` set rs - seen"
  by (induction rs arbitrary: seen) (auto simp: dedup_loop_Cons simp del: dedup_loop.simps(2))

lemma dedup_keys: "dedup_key ` set (deduplicate_records rs) = dedup_key ` set rs"
  by (simp add: deduplicate_records_def dedup_loop_keys)

lemma dedup_ids: "student_id ` set (deduplicate_records rs) = student_id ` set rs"
proof -
  have "student_id ` set xs = fst ` dedup_key ` set xs" for xs
    by (simp add: image_image dedup_key_def)
  then show ?thesis
    by (simp only: dedup_keys)
qed

lemma dedup_dates: "date ` set (deduplicate_records rs) = date ` set rs"
proof -
  have "date ` set xs = snd ` dedup_key ` set xs" for xs
    by (simp add: image_image dedup_key_def)
  then show ?thesis
    by (simp only: dedup_keys)
qed

lemma analyze_students:
  "students (analyze rs t) = map summary (fst (tally_all ([], []) (deduplicate_records rs)))"
  by (simp add: analyze_def Let_def)

lemma analyze_defaulters:
  "defaulters (analyze rs t) = filter (\<lambda>s. percentage s < t) (students (analyze rs t))"
  by (simp add: analyze_def Let_def)

lemma analyze_daily_rates:
  "daily_rates (analyze rs t) =
    map daily_rate (sort_key fst (snd (tally_all ([], []) (deduplicate_records rs))))"
  by (simp add: analyze_def Let_def)

lemma dd_get_empty: "dd_get dflt [] k = dflt"
  by (simp add: dd_get_def)

lemma new_student_fields:
  "s_name new_student = []" "s_present new_student = 0" "s_total new_student = 0"
  by (simp_all add: new_student_def)

lemma new_day_fields: "d_present new_day = 0" "d_total new_day = 0"
  by (simp_all add: new_day_def)

lemma student_entry:
  assumes "s \<in> set (students (analyze rs t))"
  obtains k where "k \<in> student_id ` set (deduplicate_records rs)"
    and "s = summary (k, dd_get new_student (fst (tally_all ([], []) (deduplicate_records rs))) k)"
proof -
  let ?st = "tally_all ([], []) (deduplicate_records rs)"
  obtain k a where ka: "(k, a) \<in> set (fst ?st)" "s = summary (k, a)"
    using assms by (auto simp: analyze_students)
  have "distinct (map fst (fst ?st))"
    by (rule distinct_tally_all) simp
  then have a: "dd_get new_student (fst ?st) k = a"
    using ka(1) by (rule dd_get_member)
  have "k \<in> fst ` set (fst ?st)"
    using ka(1) by force
  then have "k \<in> student_id ` set (deduplicate_records rs)"
    by (simp add: keys_tally_all)
  with ka(2) a that show ?thesis
    by simp
qed

lemma day_entry:
  assumes "d \<in> set (daily_rates (analyze rs t))"
  obtains k where "k \<in> date ` set (deduplicate_records rs)"
    and "d = daily_rate (k, dd_get new_day (snd (tally_all ([], []) (deduplicate_records rs))) k)"
proof -
  let ?st = "tally_all ([], []) (deduplicate_records rs)"
  obtain k a where ka: "(k, a) \<in> set (snd ?st)" "d = daily_rate (k, a)"
    using assms by (auto simp: analyze_daily_rates)
  have "distinct (map fst (snd ?st))"
    by (rule distinct_tally_all) simp
  then have a: "dd_get new_day (snd ?st) k = a"
    using ka(1) by (rule dd_get_member)
  have "k \<in> fst ` set (snd ?st)"
    using ka(1) by force
  then have "k \<in> date ` set (deduplicate_records rs)"
    by (simp add: keys_tally_all)
  with ka(2) a that show ?thesis
    by simp
qed

lemma student_summary_facts:
  assumes "s \<in> set (students (analyze rs t))"
  shows "sum_student_id s \<in> student_id ` set (deduplicate_records rs)"
    and "sum_total s =
      int (length (filter (\<lambda>r. student_id r = sum_student_id s) (deduplicate_records rs)))"
    and "sum_present s =
      int (length (filter (\<lambda>r. student_id r = sum_student_id s \<and> status r = ''P'')
        (deduplicate_records rs)))"
    and "sum_name s =
      (case filter (\<lambda>r. student_id r = sum_student_id s \<and> student_name r \<noteq> [])
         (deduplicate_records rs) of [] \<Rightarrow> [] | r # _ \<Rightarrow> student_name r)"
    and "percentage s = percent (sum_present s) (sum_total s)"
proof -
  obtain k where k: "k \<in> student_id ` set (deduplicate_records rs)"
    and s: "s = summary (k, dd_get new_student (fst (tally_all ([], []) (deduplicate_records rs))) k)"
    using assms by (rule student_entry)
  have id: "sum_student_id s = k"
    by (simp add: s summary_def)
  show "sum_student_id s \<in> student_id ` set (deduplicate_records rs)"
    using k id by simp
  show "sum_total s =
      int (length (filter (\<lambda>r. student_id r = sum_student_id s) (deduplicate_records rs)))"
    unfolding id by (simp add: s summary_def student_total_all dd_get_empty new_student_fields)
  show "sum_present s =
      int (length (filter (\<lambda>r. student_id r = sum_student_id s \<and> status r = ''P'')
        (deduplicate_records rs)))"
    unfolding id by (simp add: s summary_def student_present_all dd_get_empty new_student_fields)
  show "sum_name s =
      (case filter (\<lambda>r. student_id r = sum_student_id s \<and> student_name r \<noteq> [])
         (deduplicate_records rs) of [] \<Rightarrow> [] | r # _ \<Rightarrow> student_name r)"
    unfolding id by (simp add: s summary_def student_name_all dd_get_empty new_student_fields)
  show "percentage s = percent (sum_present s) (sum_total s)"
    by (simp add: s summary_def)
qed

lemma day_rate_facts:
  assumes "d \<in> set (daily_rates (analyze rs t))"
  shows "rate_date d \<in> date ` set (deduplicate_records rs)"
    and "rate_total d =
      int (length (filter (\<lambda>r. date r = rate_date d) (deduplicate_records rs)))"
    and "rate_present d =
      int (length (filter (\<lambda>r. date r = rate_date d \<and> status r = ''P'')
        (deduplicate_records rs)))"
    and "rate d = percent (rate_present d) (rate_total d)"
proof -
  obtain k where k: "k \<in> date ` set (deduplicate_records rs)"
    and d: "d = daily_rate (k, dd_get new_day (snd (tally_all ([], []) (deduplicate_records rs))) k)"
    using assms by (rule day_entry)
  have id: "rate_date d = k"
    by (simp add: d daily_rate_def)
  show "rate_date d \<in> date ` set (deduplicate_records rs)"
    using k id by simp
  show "rate_total d =
      int (length (filter (\<lambda>r. date r = rate_date d) (deduplicate_records rs)))"
    unfolding id by (simp add: d daily_rate_def day_total_all dd_get_empty new_day_fields)
  show "rate_present d =
      int (length (filter (\<lambda>r. date r = rate_date d \<and> status r = ''P'')
        (deduplicate_records rs)))"
    unfolding id by (simp add: d daily_rate_def day_present_all dd_get_empty new_day_fields)
  show "rate d = percent (rate_present d) (rate_total d)"
    by (simp add: d daily_rate_def)
qed

lemma count_bounds:
  assumes "k \<in> f ` set xs"
  shows "0 < int (length (filter (\<lambda>r. f r = k) xs))"
    and "int (length (filter (\<lambda>r. f r = k \<and> Q r) xs)) \<le> int (length (filter (\<lambda>r. f r = k) xs))"
proof -
  have "filter (\<lambda>r. f r = k) xs \<noteq> []"
    using assms by (auto simp: filter_empty_conv)
  then show "0 < int (length (filter (\<lambda>r. f r = k) xs))"
    by simp
  show "int (length (filter (\<lambda>r. f r = k \<and> Q r) xs)) \<le>
      int (length (filter (\<lambda>r. f r = k) xs))"
    using length_filter_le [of Q "filter (\<lambda>r. f r = k) xs"] by simp
qed

lemma student_bounds:
  assumes "s \<in> set (students (analyze rs t))"
  shows "0 \<le> sum_present s" "sum_present s \<le> sum_total s" "0 < sum_total s"
  using count_bounds [OF student_summary_facts(1) [OF assms]]
  by (simp_all add: student_summary_facts(2,3) [OF assms])

lemma day_bounds:
  assumes "d \<in> set (daily_rates (analyze rs t))"
  shows "0 \<le> rate_present d" "rate_present d \<le> rate_total d" "0 < rate_total d"
  using count_bounds [OF day_rate_facts(1) [OF assms]]
  by (simp_all add: day_rate_facts(2,3) [OF assms])

lemma sum_dd_set:
  fixes g :: "'v \<Rightarrow> int"
  shows "sum_list (map (\<lambda>p. g (snd p)) (dd_set k v d)) =
    sum_list (map (\<lambda>p. g (snd p)) d) + g v -
    (case map_of d k of None \<Rightarrow> 0 | Some u \<Rightarrow> g u)"
  by (induction d) auto

lemma student_totals_tally:
  "sum_list (map (\<lambda>p. s_total (snd p)) (fst (tally r st))) =
    sum_list (map (\<lambda>p. s_total (snd p)) (fst st)) + 1"
  by (simp add: tally_def Let_def sum_dd_set dd_get_def new_student_fields split: option.splits)

lemma day_totals_tally:
  "sum_list (map (\<lambda>p. d_total (snd p)) (snd (tally r st))) =
    sum_list (map (\<lambda>p. d_total (snd p)) (snd st)) + 1"
  by (simp add: tally_def Let_def sum_dd_set dd_get_def new_day_fields split: option.splits)

lemma totals_tally_all:
  "sum_list (map (\<lambda>p. s_total (snd p)) (fst (tally_all st rs))) =
    sum_list (map (\<lambda>p. s_total (snd p)) (fst st)) + int (length rs)"
  "sum_list (map (\<lambda>p. d_total (snd p)) (snd (tally_all st rs))) =
    sum_list (map (\<lambda>p. d_total (snd p)) (snd st)) + int (length rs)"
  by (induction rs arbitrary: st) (simp_all add: student_totals_tally day_totals_tally)

lemma sum_list_insort_key:
  fixes h :: "'a \<Rightarrow> int"
  shows "sum_list (map h (insort_key f x xs)) = h x + sum_list (map h xs)"
  by (induction xs) auto

lemma sum_list_sort_key:
  fixes h :: "'a \<Rightarrow> int"
  shows "sum_list (map h (sort_key f xs)) = sum_list (map h xs)"
  by (induction xs) (simp_all add: sum_list_insort_key)

lemma student_totals_sum:
  "sum_list (map sum_total (students (analyze rs t))) = int (length (deduplicate_records rs))"
proof -
  have "map sum_total (students (analyze rs t)) =
      map (\<lambda>p. s_total (snd p)) (fst (tally_all ([], []) (deduplicate_records rs)))"
    by (simp add: analyze_students summary_def o_def)
  then show ?thesis
    by (simp add: totals_tally_all)
qed

lemma day_totals_sum:
  "sum_list (map rate_total (daily_rates (analyze rs t))) = int (length (deduplicate_records rs))"
proof -
  have "map rate_total (daily_rates (analyze rs t)) =
      map (\<lambda>p. d_total (snd p)) (sort_key fst (snd (tally_all ([], []) (deduplicate_records rs))))"
    by (simp add: analyze_daily_rates daily_rate_def o_def)
  then show ?thesis
    by (simp add: sum_list_sort_key totals_tally_all)
qed

lemma student_ids:
  "distinct (map sum_student_id (students (analyze rs t)))"
  "set (map sum_student_id (students (analyze rs t))) = student_id ` set (deduplicate_records rs)"
proof -
  let ?st = "tally_all ([], []) (deduplicate_records rs)"
  have m: "map sum_student_id (students (analyze rs t)) = map fst (fst ?st)"
    by (simp add: analyze_students summary_def o_def)
  show "distinct (map sum_student_id (students (analyze rs t)))"
    unfolding m by (rule distinct_tally_all) simp
  show "set (map sum_student_id (students (analyze rs t))) =
      student_id ` set (deduplicate_records rs)"
    unfolding m by (simp add: keys_tally_all)
qed

lemma daily_dates:
  "sorted_wrt (<) (map rate_date (daily_rates (analyze rs t)))"
  "set (map rate_date (daily_rates (analyze rs t))) = date ` set rs"
proof -
  let ?st = "tally_all ([], []) (deduplicate_records rs)"
  have m: "map rate_date (daily_rates (analyze rs t)) = map fst (sort_key fst (snd ?st))"
    by (simp add: analyze_daily_rates daily_rate_def o_def)
  have d: "distinct (map fst (snd ?st))"
    by (rule distinct_tally_all) simp
  then have "distinct (map fst (sort_key fst (snd ?st)))"
    by (simp add: distinct_map)
  moreover have "sorted (map fst (sort_key fst (snd ?st)))"
    by (rule sorted_sort_key)
  ultimately show "sorted_wrt (<) (map rate_date (daily_rates (analyze rs t)))"
    unfolding m by (simp add: strict_sorted_iff)
  show "set (map rate_date (daily_rates (analyze rs t))) = date ` set rs"
    unfolding m by (simp add: keys_tally_all dedup_dates)
qed

lemma percent_bounds:
  assumes "0 \<le> p" "p \<le> t" "0 < t"
  shows "0 \<le> percent p t" "percent p t \<le> 100"
  using percent_props [OF assms] by blast+

lemma percent_two_places:
  assumes "0 \<le> p" "p \<le> t" "0 < t"
  shows "\<exists>k. percent p t = fl (of_int k / 100) \<and>
    \<bar>of_int k / 100 - 100 * of_int p / of_int t :: rat\<bar> \<le> 1 / 200 + 1 / 2 ^ 39"
  using percent_props [OF assms] by blast
section \<open>Rounding at and away from a tie\<close>

lemma rhe_nearest:
  fixes p t :: int and x :: rat
  assumes t: "0 < t" and x: "x = 10000 * of_int p / of_int t"
    and nt: "x - of_int \<lfloor>x\<rfloor> \<noteq> 1 / 2"
  shows "\<bar>x - of_int (round_half_even x)\<bar> \<le> 1 / 2 - 1 / (2 * of_int t)"
proof -
  define f where "f = \<lfloor>x\<rfloor>"
  define z where "z = 20000 * p - 2 * f * t"
  have tq: "(0::rat) < of_int t"
    using t by simp
  have xz: "x - of_int f = of_int z / (2 * of_int t)"
    using tq by (simp add: x z_def field_simps)
  have d0: "0 \<le> x - of_int f" and d1: "x - of_int f < 1"
    unfolding f_def by linarith+
  have zt: "(of_int z :: rat) \<noteq> of_int t"
  proof
    assume "(of_int z :: rat) = of_int t"
    then have "x - of_int f = 1 / 2"
      using tq by (simp add: xz)
    with nt show False
      by (simp add: f_def)
  qed
  show ?thesis
  proof (cases "x - of_int f < 1 / 2")
    case True
    then have r: "round_half_even x = f"
      by (simp add: round_half_even_def Let_def f_def)
    from True have "of_int z / (2 * of_int t) < (1 / 2 :: rat)"
      by (simp only: xz)
    then have "(of_int z :: rat) < of_int t"
      using tq by (simp add: field_simps)
    then have "z < t"
      by (simp only: of_int_less_iff)
    then have "z \<le> t - 1"
      by simp
    then have "(of_int z :: rat) \<le> of_int t - 1"
      by (metis of_int_le_iff of_int_diff of_int_1)
    then have "of_int z / (2 * of_int t) \<le> (of_int t - 1) / (2 * of_int t :: rat)"
      using tq by (simp add: divide_right_mono)
    also have "\<dots> = 1 / 2 - 1 / (2 * of_int t)"
      using tq by (simp add: field_simps)
    finally have "x - of_int f \<le> 1 / 2 - 1 / (2 * of_int t)"
      by (simp only: xz)
    with d0 show ?thesis
      by (simp add: r)
  next
    case False
    with nt have g: "1 / 2 < x - of_int f"
      by (simp add: f_def)
    then have r: "round_half_even x = f + 1"
      by (simp add: round_half_even_def Let_def f_def)
    from g have "(1 / 2 :: rat) < of_int z / (2 * of_int t)"
      by (simp only: xz)
    then have "(of_int t :: rat) < of_int z"
      using tq by (simp add: field_simps)
    then have "t < z"
      by (simp only: of_int_less_iff)
    then have "t + 1 \<le> z"
      by simp
    then have "(of_int t :: rat) + 1 \<le> of_int z"
      by (metis of_int_le_iff of_int_add of_int_1)
    then have "(of_int t + 1) / (2 * of_int t :: rat) \<le> of_int z / (2 * of_int t)"
      using tq by (simp add: divide_right_mono)
    moreover have "(of_int t + 1) / (2 * of_int t :: rat) = 1 / 2 + 1 / (2 * of_int t)"
      using tq by (simp add: field_simps)
    ultimately have "1 / 2 + 1 / (2 * of_int t) \<le> x - of_int f"
      by (simp only: xz)
    with d1 show ?thesis
      by (simp add: r)
  qed
qed

lemma percent_scaled:
  assumes "0 \<le> p" "p \<le> t" "0 < t"
  shows "\<exists>k. percent p t = fl (of_int k / 100) \<and>
    \<bar>of_int k - 10000 * of_int p / of_int t :: rat\<bar> \<le> 1 / 2 + 100 / 2 ^ 39"
proof -
  obtain k where k: "percent p t = fl (of_int k / 100)"
    "\<bar>of_int k / 100 - 100 * of_int p / of_int t :: rat\<bar> \<le> 1 / 200 + 1 / 2 ^ 39"
    using percent_two_places [OF assms] by blast
  have e: "of_int k - 10000 * of_int p / of_int t =
      100 * (of_int k / 100 - 100 * of_int p / of_int t :: rat)"
    by (simp add: algebra_simps)
  have "\<bar>of_int k - 10000 * of_int p / of_int t :: rat\<bar> =
      100 * \<bar>of_int k / 100 - 100 * of_int p / of_int t\<bar>"
    by (subst e) (simp only: abs_mult abs_numeral)
  also have "\<dots> \<le> 100 * (1 / 200 + 1 / 2 ^ 39)"
    using k(2) by (simp only: mult_le_cancel_left_pos zero_less_numeral)
  also have "\<dots> = 1 / 2 + 100 / 2 ^ 39"
    by simp
  finally show ?thesis
    using k(1) by blast
qed

lemma percent_exact:
  assumes "0 \<le> p" "p \<le> t" "0 < t" "t < 2 ^ 31"
    and nt: "10000 * of_int p / of_int t - of_int \<lfloor>10000 * of_int p / of_int t :: rat\<rfloor> \<noteq>
      (1 / 2 :: rat)"
  shows "percent p t = fl (of_int (round_half_even (10000 * of_int p / of_int t)) / 100)"
    and "percent p t = py_round2 (100 * of_int p / of_int t)"
proof -
  define x :: rat where "x = 10000 * of_int p / of_int t"
  define n where "n = round_half_even x"
  obtain k where k: "percent p t = fl (of_int k / 100)"
    "\<bar>of_int k - x\<bar> \<le> 1 / 2 + 100 / 2 ^ 39"
    using percent_scaled [OF assms(1-3)] unfolding x_def by blast
  have b: "\<bar>x - of_int n\<bar> \<le> 1 / 2 - 1 / (2 * of_int t)"
    unfolding n_def using assms(3) x_def nt [folded x_def] by (rule rhe_nearest)
  have tq: "(0::rat) < of_int t"
    using assms(3) by simp
  have "t \<le> 2 ^ 31 - 1"
    using assms(4) by simp
  then have "(of_int t :: rat) \<le> of_int (2 ^ 31 - 1)"
    by (simp only: of_int_le_iff)
  then have "2 * (of_int t :: rat) < 2 ^ 32"
    by simp
  then have "1 / 2 ^ 32 < 1 / (2 * of_int t :: rat)"
    using tq by (simp add: field_simps)
  moreover have "(100 / 2 ^ 39 :: rat) < 1 / 2 ^ 32"
    by simp
  ultimately have c: "(100 / 2 ^ 39 :: rat) < 1 / (2 * of_int t)"
    by linarith
  have "\<bar>(of_int k :: rat) - of_int n\<bar> \<le> \<bar>of_int k - x\<bar> + \<bar>x - of_int n\<bar>"
    by linarith
  with k(2) b c have "\<bar>(of_int k :: rat) - of_int n\<bar> < 1"
    by linarith
  then have "\<bar>(of_int (k - n) :: rat)\<bar> < of_int 1"
    by simp
  then have "\<bar>k - n\<bar> < 1"
    by (simp only: of_int_abs [symmetric] of_int_less_iff)
  then have "k = n"
    by simp
  then show "percent p t = fl (of_int (round_half_even (10000 * of_int p / of_int t)) / 100)"
    by (simp add: k(1) n_def x_def)
  moreover have "100 * of_int p / of_int t * 100 = x"
    by (simp add: x_def)
  ultimately show "percent p t = py_round2 (100 * of_int p / of_int t)"
    by (simp add: py_round2_def x_def)
qed

lemma percent_neighbours:
  assumes "0 \<le> p" "p \<le> t" "0 < t"
  shows "percent p t = fl (of_int \<lfloor>10000 * of_int p / of_int t :: rat\<rfloor> / 100) \<or>
    percent p t = fl (of_int (\<lfloor>10000 * of_int p / of_int t :: rat\<rfloor> + 1) / 100)"
proof -
  define x :: rat where "x = 10000 * of_int p / of_int t"
  obtain k where k: "percent p t = fl (of_int k / 100)"
    "\<bar>of_int k - x\<bar> \<le> 1 / 2 + 100 / 2 ^ 39"
    using percent_scaled [OF assms(1-3)] unfolding x_def by blast
  have "(100 / 2 ^ 39 :: rat) < 1 / 2"
    by simp
  with k(2) have a: "\<bar>of_int k - x\<bar> < 1"
    by linarith
  have f: "of_int \<lfloor>x\<rfloor> \<le> x" "x < of_int \<lfloor>x\<rfloor> + 1"
    by linarith+
  from a f have "(of_int \<lfloor>x\<rfloor> :: rat) < of_int k + 1" "(of_int k :: rat) < of_int \<lfloor>x\<rfloor> + 2"
    by linarith+
  then have "(of_int \<lfloor>x\<rfloor> :: rat) < of_int (k + 1)" "(of_int k :: rat) < of_int (\<lfloor>x\<rfloor> + 2)"
    by simp_all
  then have "\<lfloor>x\<rfloor> < k + 1" "k < \<lfloor>x\<rfloor> + 2"
    by (simp_all only: of_int_less_iff)
  then have "k = \<lfloor>x\<rfloor> \<or> k = \<lfloor>x\<rfloor> + 1"
    by linarith
  then show ?thesis
    using k(1) unfolding x_def by blast
qed

lemma percent_ties:
  "percent 23 160 = fl (1437 / 100)" "percent 3 32 = fl (938 / 100)"
  "percent 1 32 = fl (312 / 100)"
  by code_simp+

lemma tie_23_160:
  "(100 * 23 / 160 :: rat) = 14375 / 1000"
  "py_round2 (100 * 23 / 160) = fl (1438 / 100)"
  "\<lfloor>(100 * 23 / 160 :: rat) * 100 + 1 / 2\<rfloor> = 1438"
  "fl (1437 / 100) \<noteq> fl (1438 / 100)"
  by code_simp+

section \<open>The sample input\<close>

lemma dedup_distinct:
  assumes "distinct (map dedup_key rs)"
  shows "deduplicate_records rs = rs"
proof -
  have "filter (\<lambda>i. \<forall>j<i. dedup_key (rs ! j) \<noteq> dedup_key (rs ! i)) [0..<length rs] =
      [0..<length rs]"
  proof (rule filter_True, intro ballI allI impI)
    fix i j
    assume "i \<in> set [0..<length rs]" "j < i"
    then have "i < length (map dedup_key rs)" "j < length (map dedup_key rs)" "j \<noteq> i"
      by simp_all
    then have "map dedup_key rs ! j \<noteq> map dedup_key rs ! i"
      using assms by (simp only: nth_eq_iff_index_eq) simp
    with \<open>i \<in> set [0..<length rs]\<close> \<open>j < i\<close> show "dedup_key (rs ! j) \<noteq> dedup_key (rs ! i)"
      by simp
  qed
  then show ?thesis
    by (simp add: dedup_first_occurrences map_nth)
qed

lemma register_date_ok:
  assumes "i < 160"
  shows "date_ok \<lparr>year = 2024, month = 1 + i div 28, day = 1 + i mod 28\<rparr>"
proof -
  have m: "1 + i div 28 \<le> 12"
    using assms by simp
  have "28 \<le> days_in_month 2024 (1 + i div 28)"
    by (simp add: days_in_month_def is_leap_def)
  moreover have "1 + i mod 28 \<le> 28"
    by simp
  ultimately have "1 + i mod 28 \<le> days_in_month 2024 (1 + i div 28)"
    by (rule order_trans [rotated])
  with m show ?thesis
    by (simp add: date_ok_def)
qed

lemma register_keys: "distinct (map dedup_key register_160)"
proof -
  let ?d = "\<lambda>i::nat. \<lparr>year = 2024, month = 1 + i div 28, day = 1 + i mod 28\<rparr>"
  have "inj_on (\<lambda>i. (''S1'', isoformat (?d i))) (set [0..<160])"
  proof (rule inj_onI)
    fix i j :: nat
    assume "i \<in> set [0..<160]" "j \<in> set [0..<160]"
    then have "i < 160" "j < 160"
      by simp_all
    then have ok: "date_ok (?d i)" "date_ok (?d j)"
      by (simp_all only: register_date_ok)
    assume "(''S1'', isoformat (?d i)) = (''S1'', isoformat (?d j))"
    then have "isoformat (?d i) = isoformat (?d j)"
      by simp
    then have "?d i = ?d j"
      using ok by (rule isoformat_inj [rotated 2])
    then have "i div 28 = j div 28" "i mod 28 = j mod 28"
      by simp_all
    then show "i = j"
      by (metis div_mult_mod_eq)
  qed
  then have "distinct (map (\<lambda>i. (''S1'', isoformat (?d i))) [0..<160])"
    by (simp only: distinct_map distinct_upt simp_thms)
  moreover have "map dedup_key register_160 = map (\<lambda>i. (''S1'', isoformat (?d i))) [0..<160]"
    by (simp add: register_160_def dedup_key_def o_def)
  ultimately show ?thesis
    by simp
qed

lemma filter_less_upt: "n \<le> m \<Longrightarrow> filter (\<lambda>i. i < n) [0..<m] = [0..<n]"
proof -
  assume "n \<le> m"
  then have "[0..<m] = [0..<n] @ [n..<m]"
    by (metis le_add_diff_inverse upt_add_eq_append zero_le)
  then show ?thesis
    by simp
qed

lemma register_counts:
  "length (filter (\<lambda>r. student_id r = ''S1'') register_160) = 160"
  "length (filter (\<lambda>r. student_id r = ''S1'' \<and> status r = ''P'') register_160) = 23"
  "student_id ` set register_160 = {''S1''}"
  "(case filter (\<lambda>r. student_id r = ''S1'' \<and> student_name r \<noteq> []) register_160 of
      [] \<Rightarrow> [] | r # _ \<Rightarrow> student_name r) = ''Asha''"
proof -
  show "length (filter (\<lambda>r. student_id r = ''S1'') register_160) = 160"
    by (simp add: register_160_def filter_map o_def)
  have "filter (\<lambda>i::nat. i < 23) [0..<160] = [0..<23]"
    by (rule filter_less_upt) simp
  then show "length (filter (\<lambda>r. student_id r = ''S1'' \<and> status r = ''P'') register_160) = 23"
    by (simp add: register_160_def filter_map o_def)
  show "student_id ` set register_160 = {''S1''}"
    by (simp add: register_160_def image_image image_constant_conv)
  have "[0..<160] = 0 # [1..<160]"
    by (simp add: upt_conv_Cons)
  then show "(case filter (\<lambda>r. student_id r = ''S1'' \<and> student_name r \<noteq> []) register_160 of
      [] \<Rightarrow> [] | r # _ \<Rightarrow> student_name r) = ''Asha''"
    by (simp add: register_160_def filter_map o_def)
qed

lemma register_students:
  "students (analyze register_160 75) =
    [\<lparr>sum_student_id = ''S1'', sum_name = ''Asha'', sum_present = 23, sum_total = 160,
      percentage = fl (1437 / 100)\<rparr>]"
proof -
  let ?ss = "students (analyze register_160 75)"
  have d: "deduplicate_records register_160 = register_160"
    using register_keys by (rule dedup_distinct)
  have "distinct (map sum_student_id ?ss)" "set (map sum_student_id ?ss) = {''S1''}"
    using student_ids [of register_160 75] by (simp_all only: d register_counts(3))
  then have "length (map sum_student_id ?ss) = 1"
    by (metis distinct_card card_1_singleton_iff is_singletonI is_singleton_altdef)
  then have "length ?ss = 1"
    by simp
  then obtain s where ss: "?ss = [s]"
    by (auto simp: length_Suc_conv)
  then have m: "s \<in> set ?ss"
    by simp
  have i: "sum_student_id s = ''S1''"
    using student_summary_facts(1) [OF m] by (simp only: d register_counts(3) singleton_iff)
  note f = student_summary_facts(2-5) [OF m, unfolded d i]
  have "sum_total s = 160" "sum_present s = 23" "sum_name s = ''Asha''"
    using f(1-3) by (simp_all only: register_counts of_nat_numeral)
  moreover from this have "percentage s = fl (1437 / 100)"
    using f(4) by (simp only: percent_ties)
  ultimately have "s = \<lparr>sum_student_id = ''S1'', sum_name = ''Asha'', sum_present = 23,
      sum_total = 160, percentage = fl (1437 / 100)\<rparr>"
    using i by (cases s) simp
  with ss show ?thesis
    by simp
qed
section \<open>The claims on deduplication and analysis\<close>

text \<open>
  Claim C4: \<^verbatim>\<open>deduplicate_records\<close> returns, in the order of the input, the records that
  are the first with their key \<^verbatim>\<open>(student_id, date)\<close>: those at the positions that no
  earlier position shares its key with. Applied to its own result it changes nothing.
  Of three records, the second with the key of the first and the third with another
  key, the first and the third remain.
\<close>

theorem deduplicate_first_occurrences:
  "deduplicate_records rs =
     map (nth rs)
       (filter (\<lambda>i. \<forall>j<i. dedup_key (rs ! j) \<noteq> dedup_key (rs ! i)) [0..<length rs]) \<and>
   deduplicate_records (deduplicate_records rs) = deduplicate_records rs \<and>
   (dedup_key r1 = dedup_key r2 \<and> dedup_key r3 \<noteq> dedup_key r1 \<longrightarrow>
      deduplicate_records [r1, r2, r3] = [r1, r3])"
  using dedup_first_occurrences [of rs] dedup_idem [of rs] dedup_three [of r1 r2 r3]
  by blast

text \<open>Three records of one student, the first two on the same day.\<close>

theorem deduplicate_first_occurrences_witness:
  "dedup_key \<lparr>student_id = ''S1'', student_name = ''Alice'', date = ''2024-01-01'', status = ''P''\<rparr> =
     dedup_key \<lparr>student_id = ''S1'', student_name = ''Al'', date = ''2024-01-01'', status = ''A''\<rparr> \<and>
   dedup_key \<lparr>student_id = ''S1'', student_name = ''Alice'', date = ''2024-01-02'', status = ''A''\<rparr> \<noteq>
     dedup_key \<lparr>student_id = ''S1'', student_name = ''Alice'', date = ''2024-01-01'', status = ''P''\<rparr> \<and>
   deduplicate_records
     [\<lparr>student_id = ''S1'', student_name = ''Alice'', date = ''2024-01-01'', status = ''P''\<rparr>,
      \<lparr>student_id = ''S1'', student_name = ''Al'', date = ''2024-01-01'', status = ''A''\<rparr>,
      \<lparr>student_id = ''S1'', student_name = ''Alice'', date = ''2024-01-02'', status = ''A''\<rparr>] =
     [\<lparr>student_id = ''S1'', student_name = ''Alice'', date = ''2024-01-01'', status = ''P''\<rparr>,
      \<lparr>student_id = ''S1'', student_name = ''Alice'', date = ''2024-01-02'', status = ''A''\<rparr>]"
proof -
  let ?r1 = "\<lparr>student_id = ''S1'', student_name = ''Alice'', date = ''2024-01-01'', status = ''P''\<rparr>"
  let ?r2 = "\<lparr>student_id = ''S1'', student_name = ''Al'', date = ''2024-01-01'', status = ''A''\<rparr>"
  let ?r3 = "\<lparr>student_id = ''S1'', student_name = ''Alice'', date = ''2024-01-02'', status = ''A''\<rparr>"
  have k: "dedup_key ?r1 = dedup_key ?r2" "dedup_key ?r3 \<noteq> dedup_key ?r1"
    by (simp_all add: dedup_key_def)
  show ?thesis
    using deduplicate_first_occurrences [of "[?r1, ?r2, ?r3]" ?r1 ?r2 ?r3] k by blast
qed

text \<open>
  Claim C5 has the percentage equal to the exact value of \<open>100 * present / total\<close>,
  rounded to two decimal places. The student of \<open>register_160\<close> is present on 23 days
  of 160. The exact value is 14.375, halfway between 14.37 and 14.38, and rounding it
  gives 14.38, to the even digit and upwards alike. The division and the product in
  floating point give a number just below 14.375, and the percentage is 14.37.
\<close>

theorem analyze_tie_rounded_down:
  "students (analyze register_160 75) =
     [\<lparr>sum_student_id = ''S1'', sum_name = ''Asha'', sum_present = 23, sum_total = 160,
       percentage = fl (1437 / 100)\<rparr>] \<and>
   (100 * 23 / 160 :: rat) = 14375 / 1000 \<and>
   py_round2 (100 * 23 / 160) = fl (1438 / 100) \<and>
   \<lfloor>(100 * 23 / 160 :: rat) * 100 + 1 / 2\<rfloor> = 1438 \<and>
   fl (1437 / 100) \<noteq> fl (1438 / 100)"
  using register_students tie_23_160 by blast

text \<open>
  Claim C5, as the code has it: the summary of a student counts as \<^verbatim>\<open>total\<close> the
  records of that student in the deduplicated input and as \<^verbatim>\<open>present\<close> those of them
  with the status \<^verbatim>\<open>P\<close>. Its percentage is \<^verbatim>\<open>round(present / total * 100, 2)\<close> as the
  floats compute it. For a total below \<open>2 ^ 31\<close> it is the float nearest to the exact
  value of \<open>100 * present / total\<close> rounded to two places, unless the exact value is
  halfway between two numbers with two places; in every case it is the float nearest to
  one of the two numbers with two places next to the exact value, and that number is
  within half a unit of the second place, and \<open>1 / 2 ^ 39\<close>, of the exact value. Halfway,
  the floats decide: 3 of 32 gives 9.38, 23 of 160 gives 14.37. Three records present
  out of four give 75 exactly. A total of 0 gives 0: the guard keeps the division from
  failing. There is one summary for each student of the input, and no other.
\<close>

theorem analyze_student_summary:
  "(\<forall>s\<in>set (students (analyze rs t)).
      sum_total s =
        int (length (filter (\<lambda>r. student_id r = sum_student_id s) (deduplicate_records rs))) \<and>
      sum_present s =
        int (length (filter (\<lambda>r. student_id r = sum_student_id s \<and> status r = ''P'')
          (deduplicate_records rs))) \<and>
      percentage s = percent (sum_present s) (sum_total s) \<and>
      (sum_total s < 2 ^ 31 \<and>
       10000 * of_int (sum_present s) / of_int (sum_total s) -
         of_int \<lfloor>10000 * of_int (sum_present s) / of_int (sum_total s) :: rat\<rfloor> \<noteq> (1 / 2 :: rat) \<longrightarrow>
       percentage s =
         fl (of_int (round_half_even (10000 * of_int (sum_present s) / of_int (sum_total s))) / 100)) \<and>
      (percentage s =
         fl (of_int \<lfloor>10000 * of_int (sum_present s) / of_int (sum_total s) :: rat\<rfloor> / 100) \<or>
       percentage s =
         fl (of_int (\<lfloor>10000 * of_int (sum_present s) / of_int (sum_total s) :: rat\<rfloor> + 1) / 100)) \<and>
      (\<exists>k. percentage s = fl (of_int k / 100) \<and>
         \<bar>of_int k / 100 - 100 * of_int (sum_present s) / of_int (sum_total s) :: rat\<bar>
           \<le> 1 / 200 + 1 / 2 ^ 39) \<and>
      (sum_present s = 3 \<and> sum_total s = 4 \<longrightarrow> percentage s = 75)) \<and>
   distinct (map sum_student_id (students (analyze rs t))) \<and>
   set (map sum_student_id (students (analyze rs t))) = student_id ` set (deduplicate_records rs) \<and>
   (\<forall>p. percent p 0 = 0) \<and>
   percent 3 32 = fl (938 / 100) \<and> percent 23 160 = fl (1437 / 100)"
proof (intro conjI ballI allI)
  fix s
  assume s: "s \<in> set (students (analyze rs t))"
  note f = student_summary_facts [OF s] and b = student_bounds [OF s]
  show "sum_total s =
      int (length (filter (\<lambda>r. student_id r = sum_student_id s) (deduplicate_records rs)))"
    by (rule f(2))
  show "sum_present s =
      int (length (filter (\<lambda>r. student_id r = sum_student_id s \<and> status r = ''P'')
        (deduplicate_records rs)))"
    by (rule f(3))
  show "percentage s = percent (sum_present s) (sum_total s)"
    by (rule f(5))
  show "sum_total s < 2 ^ 31 \<and>
       10000 * of_int (sum_present s) / of_int (sum_total s) -
         of_int \<lfloor>10000 * of_int (sum_present s) / of_int (sum_total s) :: rat\<rfloor> \<noteq> (1 / 2 :: rat) \<longrightarrow>
       percentage s =
         fl (of_int (round_half_even (10000 * of_int (sum_present s) / of_int (sum_total s))) / 100)"
    unfolding f(5) using percent_exact(1) [OF b] by blast
  show "percentage s =
         fl (of_int \<lfloor>10000 * of_int (sum_present s) / of_int (sum_total s) :: rat\<rfloor> / 100) \<or>
       percentage s =
         fl (of_int (\<lfloor>10000 * of_int (sum_present s) / of_int (sum_total s) :: rat\<rfloor> + 1) / 100)"
    unfolding f(5) by (rule percent_neighbours [OF b])
  show "\<exists>k. percentage s = fl (of_int k / 100) \<and>
      \<bar>of_int k / 100 - 100 * of_int (sum_present s) / of_int (sum_total s) :: rat\<bar>
        \<le> 1 / 200 + 1 / 2 ^ 39"
    unfolding f(5) by (rule percent_two_places [OF b])
  show "sum_present s = 3 \<and> sum_total s = 4 \<longrightarrow> percentage s = 75"
    by (simp add: f(5) percent_3_4)
next
  show "distinct (map sum_student_id (students (analyze rs t)))"
    by (rule student_ids)
  show "set (map sum_student_id (students (analyze rs t))) =
      student_id ` set (deduplicate_records rs)"
    by (rule student_ids)
  show "percent p 0 = 0" for p
    by (rule percent_zero_total)
  show "percent 3 32 = fl (938 / 100)" "percent 23 160 = fl (1437 / 100)"
    by (rule percent_ties)+
qed

text \<open>
  A student present on three days out of four, with a second record for the first day
  that the deduplication drops.
\<close>

theorem analyze_student_summary_witness:
  "students (analyze
     [\<lparr>student_id = ''S1'', student_name = ''Alice'', date = ''2024-01-01'', status = ''P''\<rparr>,
      \<lparr>student_id = ''S1'', student_name = ''Alice'', date = ''2024-01-01'', status = ''A''\<rparr>,
      \<lparr>student_id = ''S1'', student_name = ''Alice'', date = ''2024-01-02'', status = ''P''\<rparr>,
      \<lparr>student_id = ''S1'', student_name = ''Alice'', date = ''2024-01-03'', status = ''P''\<rparr>,
      \<lparr>student_id = ''S1'', student_name = ''Alice'', date = ''2024-01-04'', status = ''A''\<rparr>] 75) =
     [\<lparr>sum_student_id = ''S1'', sum_name = ''Alice'', sum_present = 3, sum_total = 4,
      percentage = 75\<rparr>] \<and>
   (4::int) < 2 ^ 31 \<and>
   10000 * 3 / 4 - of_int \<lfloor>10000 * 3 / 4 :: rat\<rfloor> \<noteq> (1 / 2 :: rat) \<and>
   fl (of_int (round_half_even (10000 * 3 / 4)) / 100) = 75 \<and>
   percent 3 4 = 75"
proof -
  let ?rs = "[\<lparr>student_id = ''S1'', student_name = ''Alice'', date = ''2024-01-01'', status = ''P''\<rparr>,
      \<lparr>student_id = ''S1'', student_name = ''Alice'', date = ''2024-01-01'', status = ''A''\<rparr>,
      \<lparr>student_id = ''S1'', student_name = ''Alice'', date = ''2024-01-02'', status = ''P''\<rparr>,
      \<lparr>student_id = ''S1'', student_name = ''Alice'', date = ''2024-01-03'', status = ''P''\<rparr>,
      \<lparr>student_id = ''S1'', student_name = ''Alice'', date = ''2024-01-04'', status = ''A''\<rparr>]"
  let ?s = "\<lparr>sum_student_id = ''S1'', sum_name = ''Alice'', sum_present = 3, sum_total = 4,
      percentage = 75\<rparr>"
  have m: "students (analyze ?rs 75) = [?s]"
    by code_simp
  then have i: "?s \<in> set (students (analyze ?rs 75))"
    by simp
  have h: "(4::int) < 2 ^ 31" "10000 * 3 / 4 - of_int \<lfloor>10000 * 3 / 4 :: rat\<rfloor> \<noteq> (1 / 2 :: rat)"
    by simp_all
  then have h': "sum_total ?s < 2 ^ 31 \<and>
       10000 * of_int (sum_present ?s) / of_int (sum_total ?s) -
         of_int \<lfloor>10000 * of_int (sum_present ?s) / of_int (sum_total ?s) :: rat\<rfloor> \<noteq> (1 / 2 :: rat)"
    by simp
  have "percentage ?s = percent (sum_present ?s) (sum_total ?s) \<and>
      percentage ?s =
         fl (of_int (round_half_even (10000 * of_int (sum_present ?s) / of_int (sum_total ?s))) / 100)"
    using bspec [OF conjunct1 [OF analyze_student_summary [of ?rs 75]] i] h' by blast
  then have "percent 3 4 = 75 \<and> fl (of_int (round_half_even (10000 * 3 / 4)) / 100) = 75"
    by simp
  with m h show ?thesis
    by blast
qed

text \<open>
  Claim C6: the defaulters are the summaries of \<^verbatim>\<open>students\<close>, in their order, whose percentage
  is strictly below the threshold. With the default threshold 75, a student at exactly
  75 is not a defaulter, and a student with records but none present is at 0 and is a
  defaulter.
\<close>

theorem analyze_defaulters_threshold:
  "defaulters (analyze rs t) = filter (\<lambda>s. percentage s < t) (students (analyze rs t)) \<and>
   (\<forall>s\<in>set (students (analyze rs 75)).
      percentage s = 75 \<longrightarrow> s \<notin> set (defaulters (analyze rs 75))) \<and>
   (\<forall>s\<in>set (students (analyze rs 75)).
      0 < sum_total s \<and> sum_present s = 0 \<longrightarrow>
      percentage s = 0 \<and> s \<in> set (defaulters (analyze rs 75)))"
proof (intro conjI ballI impI)
  show "defaulters (analyze rs t) = filter (\<lambda>s. percentage s < t) (students (analyze rs t))"
    by (rule analyze_defaulters)
next
  fix s
  assume "s \<in> set (students (analyze rs 75))" "percentage s = 75"
  then show "s \<notin> set (defaulters (analyze rs 75))"
    by (simp add: analyze_defaulters)
next
  fix s
  assume s: "s \<in> set (students (analyze rs 75))" and z: "0 < sum_total s \<and> sum_present s = 0"
  have p: "percentage s = 0"
    using student_summary_facts(5) [OF s] z by (simp add: percent_zero_present)
  then show "percentage s = 0" .
  from s p show "s \<in> set (defaulters (analyze rs 75))"
    by (simp add: analyze_defaulters)
qed

text \<open>Two students under the threshold 75: one never present, one at exactly 75.\<close>

theorem analyze_defaulters_threshold_witness:
  "students (analyze
     [\<lparr>student_id = ''S1'', student_name = ''Alice'', date = ''2024-01-01'', status = ''A''\<rparr>,
      \<lparr>student_id = ''S2'', student_name = ''Bob'', date = ''2024-01-01'', status = ''P''\<rparr>,
      \<lparr>student_id = ''S2'', student_name = ''Bob'', date = ''2024-01-02'', status = ''P''\<rparr>,
      \<lparr>student_id = ''S2'', student_name = ''Bob'', date = ''2024-01-03'', status = ''P''\<rparr>,
      \<lparr>student_id = ''S2'', student_name = ''Bob'', date = ''2024-01-04'', status = ''A''\<rparr>] 75) =
     [\<lparr>sum_student_id = ''S1'', sum_name = ''Alice'', sum_present = 0, sum_total = 1,
      percentage = 0\<rparr>,
      \<lparr>sum_student_id = ''S2'', sum_name = ''Bob'', sum_present = 3, sum_total = 4,
      percentage = 75\<rparr>] \<and>
   defaulters (analyze
     [\<lparr>student_id = ''S1'', student_name = ''Alice'', date = ''2024-01-01'', status = ''A''\<rparr>,
      \<lparr>student_id = ''S2'', student_name = ''Bob'', date = ''2024-01-01'', status = ''P''\<rparr>,
      \<lparr>student_id = ''S2'', student_name = ''Bob'', date = ''2024-01-02'', status = ''P''\<rparr>,
      \<lparr>student_id = ''S2'', student_name = ''Bob'', date = ''2024-01-03'', status = ''P''\<rparr>,
      \<lparr>student_id = ''S2'', student_name = ''Bob'', date = ''2024-01-04'', status = ''A''\<rparr>] 75) =
     [\<lparr>sum_student_id = ''S1'', sum_name = ''Alice'', sum_present = 0, sum_total = 1,
      percentage = 0\<rparr>]"
proof -
  let ?rs = "[\<lparr>student_id = ''S1'', student_name = ''Alice'', date = ''2024-01-01'', status = ''A''\<rparr>,
      \<lparr>student_id = ''S2'', student_name = ''Bob'', date = ''2024-01-01'', status = ''P''\<rparr>,
      \<lparr>student_id = ''S2'', student_name = ''Bob'', date = ''2024-01-02'', status = ''P''\<rparr>,
      \<lparr>student_id = ''S2'', student_name = ''Bob'', date = ''2024-01-03'', status = ''P''\<rparr>,
      \<lparr>student_id = ''S2'', student_name = ''Bob'', date = ''2024-01-04'', status = ''A''\<rparr>]"
  let ?a = "\<lparr>sum_student_id = ''S1'', sum_name = ''Alice'', sum_present = 0, sum_total = 1,
      percentage = 0\<rparr>"
  let ?b = "\<lparr>sum_student_id = ''S2'', sum_name = ''Bob'', sum_present = 3, sum_total = 4,
      percentage = 75\<rparr>"
  have m: "students (analyze ?rs 75) = [?a, ?b]"
    by code_simp
  then have i: "?a \<in> set (students (analyze ?rs 75))" "?b \<in> set (students (analyze ?rs 75))"
    by simp_all
  note t = analyze_defaulters_threshold [of ?rs 75]
  have "?a \<in> set (defaulters (analyze ?rs 75))"
    using bspec [OF conjunct2 [OF conjunct2 [OF t]] i(1)] by simp
  moreover have "?b \<notin> set (defaulters (analyze ?rs 75))"
    using bspec [OF conjunct1 [OF conjunct2 [OF t]] i(2)] by simp
  moreover have "defaulters (analyze ?rs 75) = filter (\<lambda>s. percentage s < 75) [?a, ?b]"
    using conjunct1 [OF t] m by simp
  ultimately have "defaulters (analyze ?rs 75) = [?a]"
    by simp
  with m show ?thesis
    by blast
qed

text \<open>
  Claim C7: the dates of \<^verbatim>\<open>daily_rates\<close> are strictly ascending in the order of strings,
  so that no date comes twice, and they are the dates of the input. Three records given
  from the latest date to the earliest come out from the earliest to the latest.
\<close>

theorem analyze_daily_rates_sorted:
  "sorted_wrt (<) (map rate_date (daily_rates (analyze rs t))) \<and>
   set (map rate_date (daily_rates (analyze rs t))) = date ` set rs \<and>
   map rate_date (daily_rates (analyze
     [\<lparr>student_id = ''S1'', student_name = ''Alice'', date = ''2024-01-03'', status = ''A''\<rparr>,
      \<lparr>student_id = ''S2'', student_name = ''Bob'', date = ''2024-01-02'', status = ''P''\<rparr>,
      \<lparr>student_id = ''S1'', student_name = ''Alice'', date = ''2024-01-01'', status = ''P''\<rparr>] 75)) =
     [''2024-01-01'', ''2024-01-02'', ''2024-01-03'']"
proof (intro conjI)
  show "sorted_wrt (<) (map rate_date (daily_rates (analyze rs t)))"
    by (rule daily_dates)
  show "set (map rate_date (daily_rates (analyze rs t))) = date ` set rs"
    by (rule daily_dates)
  show "map rate_date (daily_rates (analyze
     [\<lparr>student_id = ''S1'', student_name = ''Alice'', date = ''2024-01-03'', status = ''A''\<rparr>,
      \<lparr>student_id = ''S2'', student_name = ''Bob'', date = ''2024-01-02'', status = ''P''\<rparr>,
      \<lparr>student_id = ''S1'', student_name = ''Alice'', date = ''2024-01-01'', status = ''P''\<rparr>] 75)) =
     [''2024-01-01'', ''2024-01-02'', ''2024-01-03'']"
    by code_simp
qed

text \<open>
  Claim C8: \<^verbatim>\<open>analyze\<close> deduplicates its input before it counts, so the analysis of a list
  of records and the analysis of the deduplicated list are the same, at every threshold.
\<close>

theorem analyze_deduplicates: "analyze (deduplicate_records x) t = analyze x t"
  by (simp add: analyze_def dedup_idem)

text \<open>
  Claim C9: the name in the summary of a student is the name of the first record of that
  student, in the order of the deduplicated input, whose name is not empty; later
  records do not replace it. It is the empty string when every record of the student has
  an empty name. Every student of the input has a summary.
\<close>

theorem analyze_student_name:
  "(\<forall>s\<in>set (students (analyze rs t)).
      sum_name s =
        (case filter (\<lambda>r. student_id r = sum_student_id s \<and> student_name r \<noteq> [])
           (deduplicate_records rs) of
           [] \<Rightarrow> []
         | r # _ \<Rightarrow> student_name r)) \<and>
   set (map sum_student_id (students (analyze rs t))) = student_id ` set rs"
proof (intro conjI ballI)
  fix s
  assume "s \<in> set (students (analyze rs t))"
  then show "sum_name s =
      (case filter (\<lambda>r. student_id r = sum_student_id s \<and> student_name r \<noteq> [])
         (deduplicate_records rs) of
         [] \<Rightarrow> []
       | r # _ \<Rightarrow> student_name r)"
    by (rule student_summary_facts(4))
next
  show "set (map sum_student_id (students (analyze rs t))) = student_id ` set rs"
    by (simp only: student_ids(2) dedup_ids)
qed

text \<open>A student whose first record has no name and whose later records have two.\<close>

theorem analyze_student_name_witness:
  "students (analyze
     [\<lparr>student_id = ''S1'', student_name = [], date = ''2024-01-01'', status = ''P''\<rparr>,
      \<lparr>student_id = ''S1'', student_name = ''Alice'', date = ''2024-01-02'', status = ''P''\<rparr>,
      \<lparr>student_id = ''S1'', student_name = ''Bob'', date = ''2024-01-03'', status = ''A''\<rparr>] 75) =
     [\<lparr>sum_student_id = ''S1'', sum_name = ''Alice'', sum_present = 2, sum_total = 3,
      percentage = fl (6667 / 100)\<rparr>] \<and>
   (case filter (\<lambda>r. student_id r = ''S1'' \<and> student_name r \<noteq> [])
      (deduplicate_records
        [\<lparr>student_id = ''S1'', student_name = [], date = ''2024-01-01'', status = ''P''\<rparr>,
         \<lparr>student_id = ''S1'', student_name = ''Alice'', date = ''2024-01-02'', status = ''P''\<rparr>,
         \<lparr>student_id = ''S1'', student_name = ''Bob'', date = ''2024-01-03'', status = ''A''\<rparr>]) of
      [] \<Rightarrow> []
    | r # _ \<Rightarrow> student_name r) = ''Alice''"
proof -
  let ?rs = "[\<lparr>student_id = ''S1'', student_name = [], date = ''2024-01-01'', status = ''P''\<rparr>,
      \<lparr>student_id = ''S1'', student_name = ''Alice'', date = ''2024-01-02'', status = ''P''\<rparr>,
      \<lparr>student_id = ''S1'', student_name = ''Bob'', date = ''2024-01-03'', status = ''A''\<rparr>]"
  let ?s = "\<lparr>sum_student_id = ''S1'', sum_name = ''Alice'', sum_present = 2, sum_total = 3,
      percentage = fl (6667 / 100)\<rparr>"
  have m: "students (analyze ?rs 75) = [?s]"
    by code_simp
  then have i: "?s \<in> set (students (analyze ?rs 75))"
    by simp
  have "sum_name ?s =
      (case filter (\<lambda>r. student_id r = sum_student_id ?s \<and> student_name r \<noteq> [])
         (deduplicate_records ?rs) of [] \<Rightarrow> [] | r # _ \<Rightarrow> student_name r)"
    using bspec [OF conjunct1 [OF analyze_student_name [of ?rs 75]] i] .
  then have "(case filter (\<lambda>r. student_id r = ''S1'' \<and> student_name r \<noteq> [])
      (deduplicate_records ?rs) of [] \<Rightarrow> [] | r # _ \<Rightarrow> student_name r) = ''Alice''"
    by simp
  with m show ?thesis
    by blast
qed

text \<open>
  Claim C10: in every summary of a student and in every rate of a day, \<^verbatim>\<open>present\<close> lies
  between 0 and \<^verbatim>\<open>total\<close>, and the percentage, respectively the rate, between 0 and 100.
  The totals of the students add up to the number of records of the deduplicated input,
  and so do the totals of the days.
\<close>

theorem analyze_invariants:
  "(\<forall>s\<in>set (students (analyze rs t)).
      0 \<le> sum_present s \<and> sum_present s \<le> sum_total s \<and>
      0 \<le> percentage s \<and> percentage s \<le> 100) \<and>
   (\<forall>d\<in>set (daily_rates (analyze rs t)).
      0 \<le> rate_present d \<and> rate_present d \<le> rate_total d \<and> 0 \<le> rate d \<and> rate d \<le> 100) \<and>
   sum_list (map sum_total (students (analyze rs t))) = int (length (deduplicate_records rs)) \<and>
   sum_list (map rate_total (daily_rates (analyze rs t))) = int (length (deduplicate_records rs))"
proof (intro conjI ballI)
  fix s
  assume s: "s \<in> set (students (analyze rs t))"
  note b = student_bounds [OF s]
  show "0 \<le> sum_present s" "sum_present s \<le> sum_total s"
    by (rule b)+
  show "0 \<le> percentage s" "percentage s \<le> 100"
    unfolding student_summary_facts(5) [OF s] by (rule percent_bounds [OF b])+
next
  fix d
  assume d: "d \<in> set (daily_rates (analyze rs t))"
  note b = day_bounds [OF d]
  show "0 \<le> rate_present d" "rate_present d \<le> rate_total d"
    by (rule b)+
  show "0 \<le> rate d" "rate d \<le> 100"
    unfolding day_rate_facts(4) [OF d] by (rule percent_bounds [OF b])+
next
  show "sum_list (map sum_total (students (analyze rs t))) = int (length (deduplicate_records rs))"
    by (rule student_totals_sum)
  show "sum_list (map rate_total (daily_rates (analyze rs t))) =
      int (length (deduplicate_records rs))"
    by (rule day_totals_sum)
qed

text \<open>The bounds and the sums for one student on four days.\<close>

theorem analyze_invariants_witness:
  "students (analyze
     [\<lparr>student_id = ''S1'', student_name = ''Alice'', date = ''2024-01-01'', status = ''P''\<rparr>,
      \<lparr>student_id = ''S1'', student_name = ''Alice'', date = ''2024-01-01'', status = ''A''\<rparr>,
      \<lparr>student_id = ''S1'', student_name = ''Alice'', date = ''2024-01-02'', status = ''P''\<rparr>,
      \<lparr>student_id = ''S1'', student_name = ''Alice'', date = ''2024-01-03'', status = ''P''\<rparr>,
      \<lparr>student_id = ''S1'', student_name = ''Alice'', date = ''2024-01-04'', status = ''A''\<rparr>] 75) =
     [\<lparr>sum_student_id = ''S1'', sum_name = ''Alice'', sum_present = 3, sum_total = 4,
      percentage = 75\<rparr>] \<and>
   daily_rates (analyze
     [\<lparr>student_id = ''S1'', student_name = ''Alice'', date = ''2024-01-01'', status = ''P''\<rparr>,
      \<lparr>student_id = ''S1'', student_name = ''Alice'', date = ''2024-01-01'', status = ''A''\<rparr>,
      \<lparr>student_id = ''S1'', student_name = ''Alice'', date = ''2024-01-02'', status = ''P''\<rparr>,
      \<lparr>student_id = ''S1'', student_name = ''Alice'', date = ''2024-01-03'', status = ''P''\<rparr>,
      \<lparr>student_id = ''S1'', student_name = ''Alice'', date = ''2024-01-04'', status = ''A''\<rparr>] 75) =
     [\<lparr>rate_date = ''2024-01-01'', rate_present = 1, rate_total = 1, rate = 100\<rparr>,
      \<lparr>rate_date = ''2024-01-02'', rate_present = 1, rate_total = 1, rate = 100\<rparr>,
      \<lparr>rate_date = ''2024-01-03'', rate_present = 1, rate_total = 1, rate = 100\<rparr>,
      \<lparr>rate_date = ''2024-01-04'', rate_present = 0, rate_total = 1, rate = 0\<rparr>] \<and>
   (0::int) \<le> 3 \<and> (3::int) \<le> 4 \<and> (0::rat) \<le> 75 \<and> (75::rat) \<le> 100 \<and>
   (0::int) \<le> 1 \<and> (0::rat) \<le> 100 \<and>
   sum_list (map sum_total (students (analyze
     [\<lparr>student_id = ''S1'', student_name = ''Alice'', date = ''2024-01-01'', status = ''P''\<rparr>,
      \<lparr>student_id = ''S1'', student_name = ''Alice'', date = ''2024-01-01'', status = ''A''\<rparr>,
      \<lparr>student_id = ''S1'', student_name = ''Alice'', date = ''2024-01-02'', status = ''P''\<rparr>,
      \<lparr>student_id = ''S1'', student_name = ''Alice'', date = ''2024-01-03'', status = ''P''\<rparr>,
      \<lparr>student_id = ''S1'', student_name = ''Alice'', date = ''2024-01-04'', status = ''A''\<rparr>] 75))) =
     int (length (deduplicate_records
       [\<lparr>student_id = ''S1'', student_name = ''Alice'', date = ''2024-01-01'', status = ''P''\<rparr>,
        \<lparr>student_id = ''S1'', student_name = ''Alice'', date = ''2024-01-01'', status = ''A''\<rparr>,
        \<lparr>student_id = ''S1'', student_name = ''Alice'', date = ''2024-01-02'', status = ''P''\<rparr>,
        \<lparr>student_id = ''S1'', student_name = ''Alice'', date = ''2024-01-03'', status = ''P''\<rparr>,
        \<lparr>student_id = ''S1'', student_name = ''Alice'', date = ''2024-01-04'', status = ''A''\<rparr>])) \<and>
   sum_list (map rate_total (daily_rates (analyze
     [\<lparr>student_id = ''S1'', student_name = ''Alice'', date = ''2024-01-01'', status = ''P''\<rparr>,
      \<lparr>student_id = ''S1'', student_name = ''Alice'', date = ''2024-01-01'', status = ''A''\<rparr>,
      \<lparr>student_id = ''S1'', student_name = ''Alice'', date = ''2024-01-02'', status = ''P''\<rparr>,
      \<lparr>student_id = ''S1'', student_name = ''Alice'', date = ''2024-01-03'', status = ''P''\<rparr>,
      \<lparr>student_id = ''S1'', student_name = ''Alice'', date = ''2024-01-04'', status = ''A''\<rparr>] 75))) =
     int (length (deduplicate_records
       [\<lparr>student_id = ''S1'', student_name = ''Alice'', date = ''2024-01-01'', status = ''P''\<rparr>,
        \<lparr>student_id = ''S1'', student_name = ''Alice'', date = ''2024-01-01'', status = ''A''\<rparr>,
        \<lparr>student_id = ''S1'', student_name = ''Alice'', date = ''2024-01-02'', status = ''P''\<rparr>,
        \<lparr>student_id = ''S1'', student_name = ''Alice'', date = ''2024-01-03'', status = ''P''\<rparr>,
        \<lparr>student_id = ''S1'', student_name = ''Alice'', date = ''2024-01-04'', status = ''A''\<rparr>]))"
proof -
  let ?rs = "[\<lparr>student_id = ''S1'', student_name = ''Alice'', date = ''2024-01-01'', status = ''P''\<rparr>,
      \<lparr>student_id = ''S1'', student_name = ''Alice'', date = ''2024-01-01'', status = ''A''\<rparr>,
      \<lparr>student_id = ''S1'', student_name = ''Alice'', date = ''2024-01-02'', status = ''P''\<rparr>,
      \<lparr>student_id = ''S1'', student_name = ''Alice'', date = ''2024-01-03'', status = ''P''\<rparr>,
      \<lparr>student_id = ''S1'', student_name = ''Alice'', date = ''2024-01-04'', status = ''A''\<rparr>]"
  let ?s = "\<lparr>sum_student_id = ''S1'', sum_name = ''Alice'', sum_present = 3, sum_total = 4,
      percentage = 75\<rparr>"
  let ?d = "\<lparr>rate_date = ''2024-01-01'', rate_present = 1, rate_total = 1, rate = 100\<rparr>"
  have m: "students (analyze ?rs 75) = [?s]"
    by code_simp
  then have i: "?s \<in> set (students (analyze ?rs 75))"
    by simp
  have n: "daily_rates (analyze ?rs 75) =
     [\<lparr>rate_date = ''2024-01-01'', rate_present = 1, rate_total = 1, rate = 100\<rparr>,
      \<lparr>rate_date = ''2024-01-02'', rate_present = 1, rate_total = 1, rate = 100\<rparr>,
      \<lparr>rate_date = ''2024-01-03'', rate_present = 1, rate_total = 1, rate = 100\<rparr>,
      \<lparr>rate_date = ''2024-01-04'', rate_present = 0, rate_total = 1, rate = 0\<rparr>]"
    by code_simp
  then have j: "?d \<in> set (daily_rates (analyze ?rs 75))"
    by simp
  note t = analyze_invariants [of ?rs 75]
  have "0 \<le> sum_present ?s \<and> sum_present ?s \<le> sum_total ?s \<and>
      0 \<le> percentage ?s \<and> percentage ?s \<le> 100"
    using bspec [OF conjunct1 [OF t] i] .
  then have 1: "(0::int) \<le> 3 \<and> (3::int) \<le> 4 \<and> (0::rat) \<le> 75 \<and> (75::rat) \<le> 100"
    by simp
  have "0 \<le> rate_present ?d \<and> rate_present ?d \<le> rate_total ?d \<and>
      0 \<le> rate ?d \<and> rate ?d \<le> 100"
    using bspec [OF conjunct1 [OF conjunct2 [OF t]] j] .
  then have 2: "(0::int) \<le> 1 \<and> (0::rat) \<le> 100"
    by simp
  have 3: "sum_list (map sum_total (students (analyze ?rs 75))) =
      int (length (deduplicate_records ?rs))"
    using conjunct1 [OF conjunct2 [OF conjunct2 [OF t]]] .
  have 4: "sum_list (map rate_total (daily_rates (analyze ?rs 75))) =
      int (length (deduplicate_records ?rs))"
    using conjunct2 [OF conjunct2 [OF conjunct2 [OF t]]] .
  from m n 1 2 3 4 show ?thesis
    by blast
qed

end
